theory Spec2Isabelle
  imports Main "HOL-Library.Word" "HOL-Library.Multiset"
begin

section \<open>Data model of the tablet gateway\<close>

text \<open>
  The theory embeds \<^verbatim>\<open>go/vt/vtgate/tabletgateway.go\<close>. Go values are modelled
  as follows: a struct is a record, a pointer that the code compares with \<^verbatim>\<open>nil\<close> is an
  option, an \<^verbatim>\<open>error\<close> is an \<open>error option\<close> (\<open>None\<close> is \<^verbatim>\<open>nil\<close>), a run-time panic
  is a value of type \<open>panic\<close>, and the Go type \<^verbatim>\<open>int\<close> is \<open>int\<close> (slice lengths stay far
  below \<open>2 ^ 63\<close>) except for the flag \<^verbatim>\<open>retryCount\<close>, which is a 64-bit word because the
  loop bound \<^verbatim>\<open>retryCount+1\<close> can wrap.
\<close>

text \<open>The enum \<^verbatim>\<open>topodatapb.TabletType\<close>.\<close>

datatype TabletType =
  UNKNOWN | PRIMARY | REPLICA | RDONLY | SPARE | EXPERIMENTAL | BACKUP | RESTORE | DRAINED

record TabletAlias =
  Cell :: string
  Uid :: "32 word"

text \<open>
  \<^verbatim>\<open>topodatapb.Tablet\<close> and \<^verbatim>\<open>discovery.TabletHealth\<close>, with the fields the gateway
  reads. The health check hands out entries that are not nil and carry a tablet with an
  alias, so the three are values here; only the connection may be nil.
\<close>

record Tablet =
  Alias :: TabletAlias
  DefaultConnCollation :: "32 word"

text \<open>A \<^verbatim>\<open>queryservice.QueryService\<close> connection is an opaque handle.\<close>

type_synonym QueryService = nat

record TabletHealth =
  Tablet :: Tablet
  Conn :: "QueryService option"

record Target =
  Keyspace :: string
  Shard :: string
  TabletType :: TabletType

datatype panic = IndexOutOfRange | NilDereference | InvalidArgument

section \<open>shuffleTablets\<close>

text \<open>
  \<^verbatim>\<open>rand.IntN(n)\<close> panics when \<open>n \<le> 0\<close> and otherwise returns a value of \<open>[0, n)\<close>.
  The generator is a stream of raw numbers; the value returned is the raw number reduced
  modulo \<open>n\<close>, so every value of the range can be returned.
\<close>

definition IntN :: "nat \<Rightarrow> int \<Rightarrow> panic + int" where
  "IntN raw n = (if n \<le> 0 then Inl InvalidArgument else Inr (int raw mod n))"

definition in_bounds :: "int \<Rightarrow> 'a list \<Rightarrow> bool" where
  "in_bounds k xs \<longleftrightarrow> 0 \<le> k \<and> k < int (length xs)"

text \<open>
  The Go assignment \<^verbatim>\<open>a[p], a[q] = a[q], a[p]\<close>: both right-hand sides are read first,
  then \<^verbatim>\<open>a[p]\<close> and \<^verbatim>\<open>a[q]\<close> are written in this order. An index out of range panics.
\<close>

definition swap :: "'a list \<Rightarrow> int \<Rightarrow> int \<Rightarrow> panic + 'a list" where
  "swap a p q =
     (if in_bounds p a \<and> in_bounds q a
      then Inr (a[nat p := a ! nat q, nat q := a ! nat p])
      else Inl IndexOutOfRange)"

text \<open>
  One record per executed loop body of \<^verbatim>\<open>shuffleTablets\<close>: the values of \<^verbatim>\<open>head\<close> and
  \<^verbatim>\<open>tail\<close> on entry, the argument given to \<^verbatim>\<open>rand.IntN\<close> and the index \<^verbatim>\<open>j\<close>.
\<close>

record shuffle_step =
  s_head :: int
  s_tail :: int
  s_arg :: int
  s_j :: int

text \<open>
  The loop \<^verbatim>\<open>for i := 0; i < n-1; i++\<close> of \<^verbatim>\<open>shuffleTablets\<close>. \<open>rnd k\<close> is the raw number
  drawn in the \<open>k\<close>-th loop body. The result is the list of the steps made and either
  the panic that stopped the loop or the reordered slice.
\<close>

function shuffle_loop ::
  "string \<Rightarrow> (nat \<Rightarrow> nat) \<Rightarrow> int \<Rightarrow> int \<Rightarrow> int \<Rightarrow> int \<Rightarrow> TabletHealth list
     \<Rightarrow> shuffle_step list \<times> (panic + TabletHealth list)" where
  "shuffle_loop cell rnd n i head tail tablets =
     (if i < n - 1 then
        (case IntN (rnd (nat i)) (tail - head + 1) of
           Inl p \<Rightarrow> ([], Inl p)
         | Inr r \<Rightarrow>
             (let j = head + r;
                  step = \<lparr>s_head = head, s_tail = tail, s_arg = tail - head + 1, s_j = j\<rparr>
              in if \<not> in_bounds j tablets then ([step], Inl IndexOutOfRange)
                 else if Cell (Alias (Tablet (tablets ! nat j))) = cell then
                   (case swap tablets head j of
                      Inl p \<Rightarrow> ([step], Inl p)
                    | Inr tablets' \<Rightarrow>
                        (case shuffle_loop cell rnd n (i + 1) (head + 1) tail tablets' of
                           (steps, res) \<Rightarrow> (step # steps, res)))
                 else
                   (case swap tablets tail j of
                      Inl p \<Rightarrow> ([step], Inl p)
                    | Inr tablets' \<Rightarrow>
                        (case shuffle_loop cell rnd n (i + 1) head (tail - 1) tablets' of
                           (steps, res) \<Rightarrow> (step # steps, res)))))
      else ([], Inr tablets))"
  by pat_completeness auto
termination
  by (relation "measure (\<lambda>(cell, rnd, n, i, head, tail, tablets). nat (n - 1 - i))") auto

definition shuffleTablets ::
  "string \<Rightarrow> (nat \<Rightarrow> nat) \<Rightarrow> TabletHealth list \<Rightarrow> shuffle_step list \<times> (panic + TabletHealth list)" where
  "shuffleTablets cell rnd tablets =
     (let n = int (length tablets); head = 0; tail = n - 1
      in shuffle_loop cell rnd n 0 head tail tablets)"


text \<open>The predicates in which the properties of the shuffle are stated.\<close>

definition local_to :: "string \<Rightarrow> TabletHealth \<Rightarrow> bool" where
  "local_to cell t \<longleftrightarrow> Cell (Alias (Tablet t)) = cell"

definition step_ok :: "int \<Rightarrow> shuffle_step \<Rightarrow> bool" where
  "step_ok n s \<longleftrightarrow>
     0 \<le> s_head s \<and> s_head s < s_tail s \<and> s_tail s \<le> n - 1 \<and>
     s_head s \<le> s_j s \<and> s_j s \<le> s_tail s \<and>
     s_arg s = s_tail s - s_head s + 1 \<and> 1 \<le> s_arg s"

definition partitioned :: "string \<Rightarrow> TabletHealth list \<Rightarrow> bool" where
  "partitioned cell out \<longleftrightarrow>
     (\<forall>p \<in> {..<length out}. \<forall>q \<in> {..<length out}.
        local_to cell (out ! p) \<and> \<not> local_to cell (out ! q) \<longrightarrow> p < q)"

text \<open>
  The loop invariant: the entries before \<open>head\<close> are in the local cell, the entries
  after \<open>tail\<close> are not.
\<close>

definition shuffle_inv :: "string \<Rightarrow> int \<Rightarrow> int \<Rightarrow> TabletHealth list \<Rightarrow> bool" where
  "shuffle_inv cell head tail a \<longleftrightarrow>
     0 \<le> head \<and> tail \<le> int (length a) - 1 \<and> (head \<le> tail \<or> a = []) \<and>
     (\<forall>k. k < nat head \<longrightarrow> local_to cell (a ! k)) \<and>
     (\<forall>k. nat tail < k \<and> k < length a \<longrightarrow> \<not> local_to cell (a ! k))"

section \<open>Errors\<close>

text \<open>The codes of \<^verbatim>\<open>vtrpcpb.Code\<close> that the gateway produces.\<close>

datatype Code = INTERNAL | FAILED_PRECONDITION | UNAVAILABLE | CLUSTER_EVENT

text \<open>
  An error value. \<open>Errorf code format args\<close> is \<^verbatim>\<open>vterrors.Errorf\<close> and
  \<open>Wrapf cause format args\<close> is \<^verbatim>\<open>vterrors.Wrapf\<close>, both with the format string and the
  arguments as the source passes them; \<open>VT14002\<close> and \<open>VT14003\<close> are the errors of
  these names; \<open>DeadlineExceeded\<close> is the sentinel \<^verbatim>\<open>context.DeadlineExceeded\<close>;
  \<open>Foreign k\<close> is any other error value that a collaborator hands to the gateway.
\<close>

datatype error =
    Errorf Code string "arg list"
  | Wrapf error string "arg list"
  | VT14002
  | VT14003 Tablet
  | DeadlineExceeded
  | Foreign nat
and arg =
    ArgString string
  | ArgType TabletType
  | ArgTypes "TabletType list"
  | ArgTarget "Target option"
  | ArgErrType "error option"
  | ArgErr "error option"

section \<open>Collaborators\<close>

text \<open>
  The gateway calls packages that are not part of the file. Each collaborator is a record
  of functions. A function that the retry loop calls takes the number of the loop
  iteration first, so that its answers may change from one iteration to the next; no
  such function is called twice in one iteration.
\<close>

record HealthCheck =
  GetHealthyTabletStats :: "nat \<Rightarrow> Target option \<Rightarrow> TabletHealth list"
  WaitForAllServingTablets :: "Target list \<Rightarrow> error option"

text \<open>
  \<open>ShouldStartBufferingForTarget\<close> returns the primary it sees (if any) and the flag
  \<^verbatim>\<open>shouldBuffer\<close>. A Go slice that may be \<^verbatim>\<open>nil\<close> is a list option.
\<close>

record KeyspaceEventWatcher =
  TargetIsBeingResharded :: "nat \<Rightarrow> Target option \<Rightarrow> bool"
  ShouldStartBufferingForTarget :: "nat \<Rightarrow> Target option \<Rightarrow> Tablet option \<times> bool"
  WaitForConsistentKeyspaces :: "string list \<Rightarrow> error option"
  ServingKeyspaces :: "string list option"

text \<open>
  \<open>WaitForFailoverEnd i keyspace shard err\<close> returns whether \<^verbatim>\<open>retryDone\<close> is non-nil
  and the error \<^verbatim>\<open>bufferErr\<close>.
\<close>

record Buffer =
  WaitForFailoverEnd :: "nat \<Rightarrow> string \<Rightarrow> string \<Rightarrow> error option \<Rightarrow> bool \<times> error option"

record TabletBalancer =
  Pick :: "nat \<Rightarrow> Target option \<Rightarrow> TabletHealth list \<Rightarrow> TabletHealth option"

text \<open>
  The package-level variables the gateway reads (\<^verbatim>\<open>balancerEnabled\<close>,
  \<^verbatim>\<open>balancerKeyspaces\<close>, \<^verbatim>\<open>discovery.AllowedTabletTypes\<close>), and what it takes from
  packages outside the file: the rendering \<^verbatim>\<open>topoproto.TabletAliasString\<close>, the
  name \<^verbatim>\<open>topoproto.TabletTypeLString\<close>, the two reasons of package \<^verbatim>\<open>buffer\<close>, the
  lookup \<^verbatim>\<open>srvtopo.FindAllTargetsAndKeyspaces\<close> (given the local cell and the tablet
  types) and the raw numbers behind \<^verbatim>\<open>rand.IntN\<close> (by loop iteration and shuffle step).
\<close>

record Env =
  balancerEnabled :: bool
  balancerKeyspaces :: "string list"
  AllowedTabletTypes :: "TabletType list"
  TabletAliasString :: "TabletAlias \<Rightarrow> string"
  TabletTypeLString :: "TabletType \<Rightarrow> string"
  ClusterEventReshardingInProgress :: string
  ClusterEventReparentInProgress :: string
  FindAllTargetsAndKeyspaces ::
    "string \<Rightarrow> TabletType list \<Rightarrow> Target list \<times> string list \<times> error option"
  rnd :: "nat \<Rightarrow> nat \<Rightarrow> nat"

record TabletGateway =
  hc :: HealthCheck
  kev :: "KeyspaceEventWatcher option"
  localCell :: string
  retryCount :: "64 word"
  defaultConnCollation :: "32 word"
  buffer :: "Buffer option"
  balancer :: "TabletBalancer option"

section \<open>NewShardError, GetServingKeyspaces, updateDefaultConnCollation, WaitForTablets\<close>

definition NewShardError :: "Env \<Rightarrow> error option \<Rightarrow> Target option \<Rightarrow> error option" where
  "NewShardError env in_err target =
     (case in_err of
        None \<Rightarrow> None
      | Some e \<Rightarrow>
          (case target of
             Some t \<Rightarrow>
               Some (Wrapf e ''target: %s.%s.%s''
                 [ArgString (Keyspace t), ArgString (Shard t),
                  ArgString (TabletTypeLString env (TabletType t))])
           | None \<Rightarrow> Some e))"

text \<open>How many layers of an error are wraps with the target text.\<close>

fun target_wraps :: "error \<Rightarrow> nat" where
  "target_wraps (Wrapf e f args) =
     (if f = ''target: %s.%s.%s'' then Suc (target_wraps e) else target_wraps e)"
| "target_wraps e = 0"

text \<open>
  \<^verbatim>\<open>GetServingKeyspaces\<close>: the result and the number of calls made to the watcher.
\<close>

definition GetServingKeyspaces :: "TabletGateway \<Rightarrow> string list option \<times> nat" where
  "GetServingKeyspaces gw =
     (case kev gw of
        None \<Rightarrow> (None, 0)
      | Some k \<Rightarrow> (ServingKeyspaces k, 1))"

text \<open>
  \<^verbatim>\<open>updateDefaultConnCollation\<close> on the stored value: the new stored value and whether
  the branch that logs the warning is taken. \<^verbatim>\<open>CompareAndSwap(0, v)\<close> succeeds exactly
  when the stored value is 0.
\<close>

definition updateDefaultConnCollation :: "32 word \<Rightarrow> Tablet \<Rightarrow> 32 word \<times> bool" where
  "updateDefaultConnCollation stored tablet =
     (if stored = 0 then (DefaultConnCollation tablet, False)
      else if stored \<noteq> DefaultConnCollation tablet then (stored, True)
      else (stored, False))"

text \<open>A sequence of calls: the stored value at the end and the warning flag of each call.\<close>

fun updateCalls :: "32 word \<Rightarrow> Tablet list \<Rightarrow> 32 word \<times> bool list" where
  "updateCalls stored [] = (stored, [])"
| "updateCalls stored (t # ts) =
     (case updateDefaultConnCollation stored t of
        (stored', w) \<Rightarrow>
          (case updateCalls stored' ts of (final, ws) \<Rightarrow> (final, w # ws)))"

text \<open>The first non-zero value of a sequence of observed collations, 0 if there is none.\<close>

fun first_nonzero :: "32 word list \<Rightarrow> 32 word" where
  "first_nonzero [] = 0"
| "first_nonzero (v # vs) = (if v \<noteq> 0 then v else first_nonzero vs)"

text \<open>
  Modelled from the spec: \<^verbatim>\<open>topoproto.IsTypeInList\<close> is not in the source files; the
  spec reads the test as "if PRIMARY was requested", membership in the list.
\<close>

definition IsTypeInList :: "TabletType \<Rightarrow> TabletType list \<Rightarrow> bool" where
  "IsTypeInList t ts \<longleftrightarrow> t \<in> set ts"

text \<open>The body of \<^verbatim>\<open>WaitForTablets\<close>: the value of \<^verbatim>\<open>err\<close> at its \<^verbatim>\<open>return\<close>.\<close>

definition WaitForTablets_body :: "Env \<Rightarrow> TabletGateway \<Rightarrow> TabletType list \<Rightarrow> error option" where
  "WaitForTablets_body env gw tabletTypesToWait =
     (if length tabletTypesToWait = 0 then None
      else
        (case FindAllTargetsAndKeyspaces env (localCell gw) tabletTypesToWait of
           (targets, keyspaces, Some e) \<Rightarrow> Some e
         | (targets, keyspaces, None) \<Rightarrow>
             (case WaitForAllServingTablets (hc gw) targets of
                Some e \<Rightarrow> Some e
              | None \<Rightarrow>
                  (case (IsTypeInList PRIMARY tabletTypesToWait, kev gw) of
                     (True, Some k) \<Rightarrow> WaitForConsistentKeyspaces k keyspaces
                   | _ \<Rightarrow> None))))"

text \<open>The deferred function of \<^verbatim>\<open>WaitForTablets\<close>, which rewrites the named result.\<close>

definition WaitForTablets_deferred :: "error option \<Rightarrow> error option" where
  "WaitForTablets_deferred e =
     (case e of
        None \<Rightarrow> None
      | Some x \<Rightarrow> if x = DeadlineExceeded then None else Some x)"

definition WaitForTablets :: "Env \<Rightarrow> TabletGateway \<Rightarrow> TabletType list \<Rightarrow> error option" where
  "WaitForTablets env gw tabletTypesToWait =
     WaitForTablets_deferred (WaitForTablets_body env gw tabletTypesToWait)"


section \<open>withRetry\<close>

text \<open>
  What a dispatch does, in order: the calls to the collaborators with what they returned,
  the start of each loop body, the assignment \<^verbatim>\<open>tabletLastUsed = th.Tablet\<close>
  (\<open>UseTablet\<close>), the branch \<^verbatim>\<open>th.Conn == nil\<close> (\<open>ConnNotFound\<close>), the warning of
  \<^verbatim>\<open>updateDefaultConnCollation\<close> and the deferred \<^verbatim>\<open>retryDone()\<close>.
\<close>

datatype event =
    LoopBody nat
  | CallWaitForFailoverEnd string string "error option" bool "error option"
  | CallGetHealthyTabletStats "TabletHealth list"
  | CallTargetIsBeingResharded bool
  | CallShouldStartBufferingForTarget "Tablet option" bool
  | CallPick "TabletHealth list" "TabletHealth option"
  | UseTablet Tablet
  | ConnNotFound Tablet
  | CollationWarning
  | CallInner QueryService bool "error option"
  | CallUpdateStats bool
  | CallRetryDone

text \<open>
  The local variables of \<^verbatim>\<open>withRetry\<close>, the stored default collation of the gateway and
  the events so far. The map \<^verbatim>\<open>invalidTablets\<close> only ever maps a key to \<^verbatim>\<open>true\<close> and is
  only asked whether a key is present and whether it is empty, so it is the set of its keys.
\<close>

record loop_state =
  err :: "error option"
  invalidTablets :: "string set"
  bufferedOnce :: bool
  tabletLastUsed :: "Tablet option"
  collation :: "32 word"
  trace :: "event list"

definition emit :: "event \<Rightarrow> loop_state \<Rightarrow> loop_state" where
  "emit e st = st\<lparr>trace := trace st @ [e]\<rparr>"

text \<open>How a loop body ends.\<close>

datatype control = Continue | Break | Panic panic

text \<open>The inner function of a dispatch: iteration, target, connection to \<^verbatim>\<open>(canRetry, err)\<close>.\<close>

type_synonym inner_fn = "nat \<Rightarrow> Target option \<Rightarrow> QueryService \<Rightarrow> bool \<times> error option"

text \<open>
  Lines 311 to 329, the buffer check. \<open>None\<close>: the body goes on; \<open>Some c\<close>: the body
  ends with \<open>c\<close>. Go evaluates \<^verbatim>\<open>&&\<close> from the left, so the nil target is dereferenced only
  when the three tests before it hold.
\<close>

definition bufferCheck ::
  "TabletGateway \<Rightarrow> Target option \<Rightarrow> bool \<Rightarrow> nat \<Rightarrow> loop_state \<Rightarrow> control option \<times> loop_state" where
  "bufferCheck gw target inTransaction i st =
     (case buffer gw of
        None \<Rightarrow> (None, st)
      | Some b \<Rightarrow>
          if bufferedOnce st \<or> inTransaction then (None, st)
          else
            (case target of
               None \<Rightarrow> (Some (Panic NilDereference), st)
             | Some t \<Rightarrow>
                 if TabletType t \<noteq> PRIMARY then (None, st)
                 else
                   (case WaitForFailoverEnd b i (Keyspace t) (Shard t) (err st) of
                      (retryDone, bufferErr) \<Rightarrow>
                        (let st1 = emit (CallWaitForFailoverEnd (Keyspace t) (Shard t) (err st)
                                           retryDone bufferErr) st;
                             st2 = (if retryDone then st1\<lparr>bufferedOnce := True\<rparr> else st1)
                         in case bufferErr of
                              Some be \<Rightarrow>
                                (Some Break,
                                 st2\<lparr>err := Some (Wrapf be
                                   ''failed to automatically buffer and retry failed request during failover. original err (type=%T): %v''
                                   [ArgErrType (err st), ArgErr (err st)])\<rparr>)
                            | None \<Rightarrow> (None, st2)))))"

text \<open>Lines 357 to 359: fail fast if there is no tablet.\<close>

definition failFast :: "Target option \<Rightarrow> loop_state \<Rightarrow> control \<times> loop_state" where
  "failFast target st =
     (Break, st\<lparr>err := Some (Errorf UNAVAILABLE
                                (''no healthy tablet available for '%s'' @ [CHR 0x27])
                                [ArgTarget target])\<rparr>)"

text \<open>Lines 333 to 359, the body of \<^verbatim>\<open>if len(tablets) == 0\<close>.\<close>

definition noTablets ::
  "Env \<Rightarrow> TabletGateway \<Rightarrow> Target option \<Rightarrow> nat \<Rightarrow> loop_state \<Rightarrow> control \<times> loop_state" where
  "noTablets env gw target i st =
     (case kev gw of
        None \<Rightarrow> failFast target st
      | Some k \<Rightarrow>
          (case target of
             None \<Rightarrow> (Panic NilDereference, st)
           | Some t \<Rightarrow>
               if TabletType t \<noteq> PRIMARY then failFast target st
               else
                 (let resharded = TargetIsBeingResharded k i target;
                      st1 = emit (CallTargetIsBeingResharded resharded) st
                  in if resharded then
                       (Continue,
                        st1\<lparr>err := Some (Errorf CLUSTER_EVENT
                                             (ClusterEventReshardingInProgress env) [])\<rparr>)
                     else
                       (case ShouldStartBufferingForTarget k i target of
                          (primary, shouldBuffer) \<Rightarrow>
                            (let st2 = emit (CallShouldStartBufferingForTarget primary shouldBuffer) st1
                             in if shouldBuffer then
                                  (Continue,
                                   st2\<lparr>err := Some (Errorf CLUSTER_EVENT
                                                        (ClusterEventReparentInProgress env) [])\<rparr>)
                                else if primary \<noteq> None then
                                  (Continue,
                                   st2\<lparr>err := Some (Errorf UNAVAILABLE
                                     ''inconsistent state detected, primary is serving but initially found no available tablet''
                                     [])\<rparr>)
                                else failFast target st2)))))"

text \<open>The key of a tablet in \<^verbatim>\<open>invalidTablets\<close>.\<close>

definition aliasKey :: "Env \<Rightarrow> Tablet \<Rightarrow> string" where
  "aliasKey env t = TabletAliasString env (Alias t)"

text \<open>
  Lines 364 to 367. \<^verbatim>\<open>target.Keyspace\<close> is read only when the balancer is enabled and
  \<^verbatim>\<open>balancerKeyspaces\<close> is not empty.
\<close>

definition useBalancer :: "Env \<Rightarrow> Target option \<Rightarrow> panic + bool" where
  "useBalancer env target =
     (if balancerEnabled env \<and> length (balancerKeyspaces env) > 0 then
        (case target of
           None \<Rightarrow> Inl NilDereference
         | Some t \<Rightarrow> Inr (Keyspace t \<in> set (balancerKeyspaces env)))
      else Inr (balancerEnabled env))"

text \<open>
  Lines 368 to 389, the choice of \<^verbatim>\<open>th\<close>. With the balancer, the tablets tried before
  are deleted from the slice (\<^verbatim>\<open>slices.DeleteFunc\<close>) and the balancer picks; a gateway
  without a balancer panics there. Otherwise the slice is shuffled and the first tablet
  not tried before is taken.
\<close>

definition selectTablet ::
  "Env \<Rightarrow> TabletGateway \<Rightarrow> Target option \<Rightarrow> nat \<Rightarrow> TabletHealth list \<Rightarrow> loop_state
     \<Rightarrow> (panic + TabletHealth option) \<times> loop_state" where
  "selectTablet env gw target i tablets st =
     (case useBalancer env target of
        Inl p \<Rightarrow> (Inl p, st)
      | Inr True \<Rightarrow>
          (let tablets' =
                 (if invalidTablets st \<noteq> {}
                  then filter (\<lambda>t. aliasKey env (Tablet t) \<notin> invalidTablets st) tablets
                  else tablets)
           in case balancer gw of
                None \<Rightarrow> (Inl NilDereference, st)
              | Some b \<Rightarrow>
                  (let th = Pick b i target tablets'
                   in (Inr th, emit (CallPick tablets' th) st)))
      | Inr False \<Rightarrow>
          (case snd (shuffleTablets (localCell gw) (rnd env i) tablets) of
             Inl p \<Rightarrow> (Inl p, st)
           | Inr tablets' \<Rightarrow>
               (Inr (find (\<lambda>t. aliasKey env (Tablet t) \<notin> invalidTablets st) tablets'), st)))"

text \<open>
  Lines 391 to 417. \<^verbatim>\<open>updateStats\<close> reads \<^verbatim>\<open>target.Keyspace\<close> (in
  \<^verbatim>\<open>getStatsAggregator\<close>), so it panics on a nil target.
\<close>

definition execute ::
  "Env \<Rightarrow> Target option \<Rightarrow> inner_fn \<Rightarrow> nat \<Rightarrow> TabletHealth option \<Rightarrow> loop_state
     \<Rightarrow> control \<times> loop_state" where
  "execute env target inner i th st =
     (case th of
        None \<Rightarrow> (Break, if err st = None then st\<lparr>err := Some VT14002\<rparr> else st)
      | Some h \<Rightarrow>
          (let st1 = emit (UseTablet (Tablet h)) (st\<lparr>tabletLastUsed := Some (Tablet h)\<rparr>)
           in case Conn h of
                None \<Rightarrow>
                  (Continue,
                   emit (ConnNotFound (Tablet h))
                     (st1\<lparr>err := Some (VT14003 (Tablet h)),
                          invalidTablets := insert (aliasKey env (Tablet h)) (invalidTablets st1)\<rparr>))
              | Some conn \<Rightarrow>
                  (case updateDefaultConnCollation (collation st1) (Tablet h) of
                     (stored, warn) \<Rightarrow>
                       (let st2 = (if warn then emit CollationWarning st1 else st1)
                                    \<lparr>collation := stored\<rparr>
                        in case inner i target conn of
                             (canRetry, e) \<Rightarrow>
                               (let st3 = (emit (CallInner conn canRetry e) st2)\<lparr>err := e\<rparr>
                                in case target of
                                     None \<Rightarrow> (Panic NilDereference, st3)
                                   | Some t \<Rightarrow>
                                       (let st4 = emit (CallUpdateStats (e \<noteq> None)) st3
                                        in if canRetry then
                                             (Continue,
                                              st4\<lparr>invalidTablets :=
                                                    insert (aliasKey env (Tablet h)) (invalidTablets st4)\<rparr>)
                                           else (Break, st4)))))))"

text \<open>One loop body, lines 307 to 417.\<close>

definition iteration ::
  "Env \<Rightarrow> TabletGateway \<Rightarrow> Target option \<Rightarrow> bool \<Rightarrow> inner_fn \<Rightarrow> nat \<Rightarrow> loop_state
     \<Rightarrow> control \<times> loop_state" where
  "iteration env gw target inTransaction inner i st =
     (case bufferCheck gw target inTransaction i (emit (LoopBody i) st) of
        (Some c, st1) \<Rightarrow> (c, st1)
      | (None, st1) \<Rightarrow>
          (let tablets = GetHealthyTabletStats (hc gw) i target;
               st2 = emit (CallGetHealthyTabletStats tablets) st1
           in if length tablets = 0 then noTablets env gw target i st2
              else
                (case selectTablet env gw target i tablets st2 of
                   (Inl p, st3) \<Rightarrow> (Panic p, st3)
                 | (Inr th, st3) \<Rightarrow> execute env target inner i th st3)))"

text \<open>The bound of the loop, \<^verbatim>\<open>gw.retryCount+1\<close> in 64-bit arithmetic.\<close>

definition loopBound :: "TabletGateway \<Rightarrow> int" where
  "loopBound gw = sint (retryCount gw + 1)"

text \<open>
  The loop \<^verbatim>\<open>for i := 0; i < gw.retryCount+1; i++\<close>: the panic, if one stopped it, and the
  state at its end.
\<close>

function withRetry_loop ::
  "Env \<Rightarrow> TabletGateway \<Rightarrow> Target option \<Rightarrow> bool \<Rightarrow> inner_fn \<Rightarrow> nat \<Rightarrow> loop_state
     \<Rightarrow> panic option \<times> loop_state" where
  "withRetry_loop env gw target inTransaction inner i st =
     (if int i < loopBound gw then
        (case iteration env gw target inTransaction inner i st of
           (Continue, st') \<Rightarrow> withRetry_loop env gw target inTransaction inner (i + 1) st'
         | (Break, st') \<Rightarrow> (None, st')
         | (Panic p, st') \<Rightarrow> (Some p, st'))
      else (None, st))"
  by pat_completeness auto
termination
  by (relation "measure (\<lambda>(env, gw, target, inTransaction, inner, i, st). nat (loopBound gw - int i))")
    auto

text \<open>What a dispatch gives back: the error returned (\<open>None\<close> is nil) or a panic.\<close>

datatype result = Returned "error option" | Panicked panic

definition initial_state :: "TabletGateway \<Rightarrow> loop_state" where
  "initial_state gw =
     \<lparr>err = None, invalidTablets = {}, bufferedOnce = False, tabletLastUsed = None,
      collation = defaultConnCollation gw, trace = []\<rparr>"

text \<open>
  The deferred \<^verbatim>\<open>retryDone()\<close>: it was deferred exactly when \<^verbatim>\<open>bufferedOnce\<close> was set, and
  runs when the function returns or panics.
\<close>

definition runDeferred :: "loop_state \<Rightarrow> loop_state" where
  "runDeferred st = (if bufferedOnce st then emit CallRetryDone st else st)"

text \<open>
  Lines 285 to 287. \<open>None\<close>: the check passes; \<open>Some r\<close>: the function ends with \<open>r\<close>.
  \<^verbatim>\<open>target.TabletType\<close> is read only when \<^verbatim>\<open>inTransaction\<close> holds.
\<close>

definition checkTransaction :: "Target option \<Rightarrow> bool \<Rightarrow> result option" where
  "checkTransaction target inTransaction =
     (if inTransaction then
        (case target of
           None \<Rightarrow> Some (Panicked NilDereference)
         | Some t \<Rightarrow>
             if TabletType t \<noteq> PRIMARY then
               Some (Returned (Some (Errorf INTERNAL
                 ''tabletGateway's query service can only be used for non-transactional queries on replicas''
                 [])))
             else None)
      else None)"

text \<open>
  Lines 292 to 303. The loop over \<^verbatim>\<open>discovery.AllowedTabletTypes\<close> sets \<^verbatim>\<open>match\<close> exactly
  when the type of the target is in the list; its first pass reads \<^verbatim>\<open>target.TabletType\<close>.
\<close>

definition checkAllowed :: "Env \<Rightarrow> Target option \<Rightarrow> result option" where
  "checkAllowed env target =
     (if length (AllowedTabletTypes env) > 0 then
        (case target of
           None \<Rightarrow> Some (Panicked NilDereference)
         | Some t \<Rightarrow>
             if TabletType t \<notin> set (AllowedTabletTypes env) then
               Some (Returned (Some (Errorf FAILED_PRECONDITION
                 ''requested tablet type %v is not part of the allowed tablet types for this vtgate: %+v''
                 [ArgType (TabletType t), ArgTypes (AllowedTabletTypes env)])))
             else None)
      else None)"

text \<open>
  \<^verbatim>\<open>withRetry\<close>, lines 281 to 420: the result, and the state at the end (the events of
  the dispatch and the stored collation).
\<close>

definition withRetry ::
  "Env \<Rightarrow> TabletGateway \<Rightarrow> Target option \<Rightarrow> bool \<Rightarrow> inner_fn \<Rightarrow> result \<times> loop_state" where
  "withRetry env gw target inTransaction inner =
     (let st0 = initial_state gw in
      case checkTransaction target inTransaction of
        Some r \<Rightarrow> (r, st0)
      | None \<Rightarrow>
          (case checkAllowed env target of
             Some r \<Rightarrow> (r, st0)
           | None \<Rightarrow>
               (case withRetry_loop env gw target inTransaction inner 0 st0 of
                  (Some p, st) \<Rightarrow> (Panicked p, runDeferred st)
                | (None, st) \<Rightarrow>
                    (Returned (NewShardError env (err st) target), runDeferred st))))"

text \<open>Read from the events of a dispatch.\<close>

fun used :: "event list \<Rightarrow> Tablet list" where
  "used [] = []"
| "used (UseTablet t # es) = t # used es"
| "used (e # es) = used es"

fun bodies :: "event list \<Rightarrow> nat" where
  "bodies [] = 0"
| "bodies (LoopBody i # es) = Suc (bodies es)"
| "bodies (e # es) = bodies es"

text \<open>
  The errors of the attempts, in order: \<^verbatim>\<open>VT14003\<close> for a tablet without connection,
  the error of the inner function otherwise.
\<close>

fun attempt_errors :: "event list \<Rightarrow> error option list" where
  "attempt_errors [] = []"
| "attempt_errors (ConnNotFound t # es) = Some (VT14003 t) # attempt_errors es"
| "attempt_errors (CallInner c r e # es) = e # attempt_errors es"
| "attempt_errors (e # es) = attempt_errors es"


section \<open>Predicates of the retry loop\<close>

text \<open>
  Modelled from the spec: the balancer is not in the source files. The spec gives its
  contract as \<^verbatim>\<open>Pick(target, candidates) \<rightarrow> chosen\<close>: the tablet chosen is one of the
  candidates, and no tablet is chosen only when there is no candidate.
\<close>

definition pick_from_candidates :: "TabletGateway \<Rightarrow> bool" where
  "pick_from_candidates gw \<longleftrightarrow>
     (\<forall>b i target tablets. balancer gw = Some b \<longrightarrow>
        (case Pick b i target tablets of
           None \<Rightarrow> tablets = []
         | Some th \<Rightarrow> th \<in> set tablets))"

text \<open>The keys of the tablets used so far are pairwise different and all in \<^verbatim>\<open>invalidTablets\<close>.\<close>

definition tried_inv :: "Env \<Rightarrow> loop_state \<Rightarrow> bool" where
  "tried_inv env st \<longleftrightarrow>
     distinct (map (aliasKey env) (used (trace st)))
     \<and> set (map (aliasKey env) (used (trace st))) \<subseteq> invalidTablets st"

text \<open>No tablet has been tried; and: the error is the error of the last attempt.\<close>

definition fresh :: "loop_state \<Rightarrow> bool" where
  "fresh st \<longleftrightarrow> attempt_errors (trace st) = [] \<and> invalidTablets st = {} \<and> err st = None"

definition last_error_inv :: "loop_state \<Rightarrow> bool" where
  "last_error_inv st \<longleftrightarrow>
     attempt_errors (trace st) \<noteq> [] \<and> err st = last (attempt_errors (trace st))
     \<and> last (attempt_errors (trace st)) \<noteq> None"

section \<open>Sample values\<close>

text \<open>Concrete tablets, collaborators and gateways on which the theorems are instantiated.\<close>

definition mk_tablet :: "string \<Rightarrow> 32 word \<Rightarrow> 32 word \<Rightarrow> QueryService option \<Rightarrow> TabletHealth" where
  "mk_tablet cell uid coll conn =
     \<lparr>Tablet = \<lparr>Alias = \<lparr>Cell = cell, Uid = uid\<rparr>, DefaultConnCollation = coll\<rparr>, Conn = conn\<rparr>"

definition th_a :: TabletHealth where "th_a = mk_tablet ''a'' 1 45 (Some 7)"
definition th_b :: TabletHealth where "th_b = mk_tablet ''b'' 2 45 (Some 8)"
definition th_c :: TabletHealth where "th_c = mk_tablet ''a'' 3 0 None"

definition sample_target :: "TabletType \<Rightarrow> Target" where
  "sample_target ty = \<lparr>Keyspace = ''ks'', Shard = ''0'', TabletType = ty\<rparr>"

definition sample_env :: Env where
  "sample_env =
     \<lparr>balancerEnabled = False, balancerKeyspaces = [], AllowedTabletTypes = [],
      TabletAliasString = (\<lambda>a. Cell a @ ''-'' @ replicate (unat (Uid a)) (CHR ''i'')),
      TabletTypeLString =
        (\<lambda>ty. case ty of PRIMARY \<Rightarrow> ''primary'' | REPLICA \<Rightarrow> ''replica''
               | RDONLY \<Rightarrow> ''rdonly'' | _ \<Rightarrow> ''other''),
      ClusterEventReshardingInProgress = ''resharding in progress'',
      ClusterEventReparentInProgress = ''reparent in progress'',
      FindAllTargetsAndKeyspaces = (\<lambda>cell types. ([], [], None)),
      rnd = (\<lambda>i k. k + 1)\<rparr>"

definition sample_hc :: "TabletHealth list \<Rightarrow> HealthCheck" where
  "sample_hc tablets =
     \<lparr>GetHealthyTabletStats = (\<lambda>i target. tablets),
      WaitForAllServingTablets = (\<lambda>targets. None)\<rparr>"

definition sample_gw :: "TabletHealth list \<Rightarrow> TabletGateway" where
  "sample_gw tablets =
     \<lparr>hc = sample_hc tablets, kev = None, localCell = ''a'', retryCount = 2,
      defaultConnCollation = 0, buffer = None, balancer = None\<rparr>"

text \<open>An inner function whose every call fails with a retryable error.\<close>

definition failing_inner :: inner_fn where
  "failing_inner i target conn = (True, Some (Foreign conn))"

text \<open>A watcher that reports what it is given, and a buffer that fails from iteration 1 on.\<close>

definition sample_kev :: "bool \<Rightarrow> Tablet option \<times> bool \<Rightarrow> error option \<Rightarrow> KeyspaceEventWatcher" where
  "sample_kev resharded buffering consistent =
     \<lparr>TargetIsBeingResharded = (\<lambda>i target. resharded),
      ShouldStartBufferingForTarget = (\<lambda>i target. buffering),
      WaitForConsistentKeyspaces = (\<lambda>keyspaces. consistent),
      ServingKeyspaces = Some [''ks'']\<rparr>"

definition sample_buffer :: Buffer where
  "sample_buffer =
     \<lparr>WaitForFailoverEnd =
        (\<lambda>i keyspace shard e. if i = 0 then (False, None) else (False, Some (Foreign 99)))\<rparr>"

text \<open>A balancer that picks the first candidate, and a buffer that never reports an error.\<close>

definition first_balancer :: TabletBalancer where
  "first_balancer =
     \<lparr>Pick = (\<lambda>i target tablets. case tablets of [] \<Rightarrow> None | x # xs \<Rightarrow> Some x)\<rparr>"

definition quiet_buffer :: Buffer where
  "quiet_buffer = \<lparr>WaitForFailoverEnd = (\<lambda>i keyspace shard e. (i = 1, None))\<rparr>"

section \<open>Proof setup\<close>

text \<open>The two loops are unfolded by hand, one body at a time.\<close>

declare shuffle_loop.simps [simp del]
declare withRetry_loop.simps [simp del]

section \<open>Properties of shuffleTablets\<close>

lemma IntN_range:
  "0 < n \<Longrightarrow> \<exists>r. IntN raw n = Inr r \<and> 0 \<le> r \<and> r < n"
  by (simp add: IntN_def)

lemma swap_ok:
  "in_bounds p a \<Longrightarrow> in_bounds q a \<Longrightarrow>
   swap a p q = Inr (a[nat p := a ! nat q, nat q := a ! nat p])"
  by (simp add: swap_def)

lemma mset_swapped:
  "in_bounds p a \<Longrightarrow> in_bounds q a \<Longrightarrow>
   mset (a[nat p := a ! nat q, nat q := a ! nat p]) = mset a"
  by (simp add: in_bounds_def mset_swap nat_less_iff)

lemma shuffle_loop_done:
  "\<not> i < n - 1 \<Longrightarrow> shuffle_loop cell gen n i head tail tablets = ([], Inr tablets)"
  by (subst shuffle_loop.simps) simp

lemma shuffle_loop_front:
  "i < n - 1 \<Longrightarrow> IntN (gen (nat i)) (tail - head + 1) = Inr r \<Longrightarrow>
   in_bounds (head + r) tablets \<Longrightarrow> local_to cell (tablets ! nat (head + r)) \<Longrightarrow>
   swap tablets head (head + r) = Inr tablets' \<Longrightarrow>
   shuffle_loop cell gen n i head tail tablets =
     (\<lparr>s_head = head, s_tail = tail, s_arg = tail - head + 1, s_j = head + r\<rparr>
        # fst (shuffle_loop cell gen n (i + 1) (head + 1) tail tablets'),
      snd (shuffle_loop cell gen n (i + 1) (head + 1) tail tablets'))"
  by (subst shuffle_loop.simps) (simp add: local_to_def Let_def split: prod.split)

lemma shuffle_loop_back:
  "i < n - 1 \<Longrightarrow> IntN (gen (nat i)) (tail - head + 1) = Inr r \<Longrightarrow>
   in_bounds (head + r) tablets \<Longrightarrow> \<not> local_to cell (tablets ! nat (head + r)) \<Longrightarrow>
   swap tablets tail (head + r) = Inr tablets' \<Longrightarrow>
   shuffle_loop cell gen n i head tail tablets =
     (\<lparr>s_head = head, s_tail = tail, s_arg = tail - head + 1, s_j = head + r\<rparr>
        # fst (shuffle_loop cell gen n (i + 1) head (tail - 1) tablets'),
      snd (shuffle_loop cell gen n (i + 1) head (tail - 1) tablets'))"
  by (subst shuffle_loop.simps) (simp add: local_to_def Let_def split: prod.split)

lemma shuffle_inv_front:
  assumes inv: "shuffle_inv cell head tail a" and lt: "head < tail"
    and j: "head \<le> j" "j \<le> tail" and loc: "local_to cell (a ! nat j)"
  shows "shuffle_inv cell (head + 1) tail (a[nat head := a ! nat j, nat j := a ! nat head])"
proof -
  let ?a' = "a[nat head := a ! nat j, nat j := a ! nat head]"
  from inv have h0: "0 \<le> head" and tn: "tail \<le> int (length a) - 1"
    and pre: "\<And>k. k < nat head \<Longrightarrow> local_to cell (a ! k)"
    and suf: "\<And>k. nat tail < k \<Longrightarrow> k < length a \<Longrightarrow> \<not> local_to cell (a ! k)"
    by (auto simp: shuffle_inv_def)
  have at_head: "?a' ! nat head = a ! nat j"
    using h0 tn lt j by (cases "j = head") simp_all
  have pre': "local_to cell (?a' ! k)" if "k < nat (head + 1)" for k
  proof (cases "k = nat head")
    case True
    then show ?thesis using at_head loc by simp
  next
    case False
    with that h0 have kl: "k < nat head" by linarith
    then have "k \<noteq> nat j" using j h0 by linarith
    then have "?a' ! k = a ! k" using False by simp
    then show ?thesis using pre [OF kl] by simp
  qed
  have suf': "\<not> local_to cell (?a' ! k)" if "nat tail < k" "k < length ?a'" for k
  proof -
    have "k \<noteq> nat j" "k \<noteq> nat head" using that j lt h0 by linarith+
    then have "?a' ! k = a ! k" by simp
    then show ?thesis using suf that by simp
  qed
  show ?thesis
    unfolding shuffle_inv_def using h0 tn lt pre' suf' by auto
qed

lemma shuffle_inv_back:
  assumes inv: "shuffle_inv cell head tail a" and lt: "head < tail"
    and j: "head \<le> j" "j \<le> tail" and loc: "\<not> local_to cell (a ! nat j)"
  shows "shuffle_inv cell head (tail - 1) (a[nat tail := a ! nat j, nat j := a ! nat tail])"
proof -
  let ?a' = "a[nat tail := a ! nat j, nat j := a ! nat tail]"
  from inv have h0: "0 \<le> head" and tn: "tail \<le> int (length a) - 1"
    and pre: "\<And>k. k < nat head \<Longrightarrow> local_to cell (a ! k)"
    and suf: "\<And>k. nat tail < k \<Longrightarrow> k < length a \<Longrightarrow> \<not> local_to cell (a ! k)"
    by (auto simp: shuffle_inv_def)
  have at_tail: "?a' ! nat tail = a ! nat j"
    using h0 tn lt j by (cases "j = tail") simp_all
  have pre': "local_to cell (?a' ! k)" if "k < nat head" for k
  proof -
    have "k \<noteq> nat j" "k \<noteq> nat tail" using that j lt h0 by linarith+
    then have "?a' ! k = a ! k" by simp
    then show ?thesis using pre that by simp
  qed
  have suf': "\<not> local_to cell (?a' ! k)" if "nat (tail - 1) < k" "k < length ?a'" for k
  proof (cases "k = nat tail")
    case True
    then show ?thesis using at_tail loc by simp
  next
    case False
    with that h0 lt have kl: "nat tail < k" by linarith
    then have "k \<noteq> nat j" using j h0 by linarith
    then have "?a' ! k = a ! k" using False by simp
    then show ?thesis using suf [OF kl] that by simp
  qed
  show ?thesis
    unfolding shuffle_inv_def using h0 tn lt pre' suf' by auto
qed

lemma shuffle_inv_partitioned:
  assumes inv: "shuffle_inv cell head tail a" and ht: "tail \<le> head"
  shows "partitioned cell a"
  unfolding partitioned_def
proof (intro ballI impI)
  fix p q
  assume p: "p \<in> {..<length a}" and q: "q \<in> {..<length a}"
    and pq: "local_to cell (a ! p) \<and> \<not> local_to cell (a ! q)"
  from p have ne: "a \<noteq> []" by auto
  from inv have pre: "\<And>k. k < nat head \<Longrightarrow> local_to cell (a ! k)"
    and suf: "\<And>k. nat tail < k \<Longrightarrow> k < length a \<Longrightarrow> \<not> local_to cell (a ! k)"
    and "head \<le> tail \<or> a = []"
    by (auto simp: shuffle_inv_def)
  with ne ht have eq: "head = tail" by auto
  have "\<not> nat tail < p" using suf p pq by auto
  moreover have "\<not> q < nat head" using pre pq by auto
  moreover have "p \<noteq> q" using pq by auto
  ultimately show "p < q" using eq by linarith
qed

lemma shuffle_loop_correct:
  "k = nat (n - 1 - i) \<Longrightarrow> n = int (length a) \<Longrightarrow> tail - head = n - 1 - i \<Longrightarrow>
   shuffle_inv cell head tail a \<Longrightarrow>
   \<exists>steps out. shuffle_loop cell gen n i head tail a = (steps, Inr out)
      \<and> length steps = k
      \<and> (\<forall>s \<in> set steps. step_ok n s)
      \<and> mset out = mset a
      \<and> partitioned cell out"
proof (induction k arbitrary: i head tail a)
  case 0
  then have ni: "\<not> i < n - 1" by simp
  have "tail \<le> head" using 0 by (auto simp: shuffle_inv_def)
  then have "partitioned cell a" using shuffle_inv_partitioned 0 by blast
  then show ?case using shuffle_loop_done [OF ni] by simp
next
  case (Suc k)
  then have lt: "i < n - 1" by simp
  then have ht: "head < tail" using Suc.prems by linarith
  from Suc.prems have h0: "0 \<le> head" and tn: "tail \<le> int (length a) - 1"
    by (auto simp: shuffle_inv_def)
  obtain r where r: "IntN (gen (nat i)) (tail - head + 1) = Inr r" "0 \<le> r" "r < tail - head + 1"
    using IntN_range [of "tail - head + 1"] ht by fastforce
  let ?j = "head + r"
  let ?step = "\<lparr>s_head = head, s_tail = tail, s_arg = tail - head + 1, s_j = ?j\<rparr>"
  have j: "head \<le> ?j" "?j \<le> tail" using r by simp_all
  have bj: "in_bounds ?j a" and bh: "in_bounds head a" and bt: "in_bounds tail a"
    using j h0 tn ht by (simp_all add: in_bounds_def)
  have sok: "step_ok n ?step"
    using j h0 tn ht Suc.prems(2) by (simp add: step_ok_def)
  show ?case
  proof (cases "local_to cell (a ! nat ?j)")
    case True
    let ?a' = "a[nat head := a ! nat ?j, nat ?j := a ! nat head]"
    have inv': "shuffle_inv cell (head + 1) tail ?a'"
      by (rule shuffle_inv_front [OF Suc.prems(4) ht j True])
    have "\<exists>steps out. shuffle_loop cell gen n (i + 1) (head + 1) tail ?a' = (steps, Inr out)
      \<and> length steps = k \<and> (\<forall>s \<in> set steps. step_ok n s)
      \<and> mset out = mset ?a' \<and> partitioned cell out"
      using Suc.prems by (intro Suc.IH inv') simp_all
    then obtain steps out where rec:
      "shuffle_loop cell gen n (i + 1) (head + 1) tail ?a' = (steps, Inr out)"
      "length steps = k" "\<forall>s \<in> set steps. step_ok n s" "mset out = mset ?a'"
      "partitioned cell out" by blast
    have "shuffle_loop cell gen n i head tail a = (?step # steps, Inr out)"
      using shuffle_loop_front [where tablets' = ?a' and gen = gen and i = i and r = r and head = head and tail = tail, OF lt r(1) bj True swap_ok [OF bh bj]] rec(1)
      by simp
    then show ?thesis
      using rec sok mset_swapped [OF bh bj] by simp
  next
    case False
    let ?a' = "a[nat tail := a ! nat ?j, nat ?j := a ! nat tail]"
    have inv': "shuffle_inv cell head (tail - 1) ?a'"
      by (rule shuffle_inv_back [OF Suc.prems(4) ht j False])
    have "\<exists>steps out. shuffle_loop cell gen n (i + 1) head (tail - 1) ?a' = (steps, Inr out)
      \<and> length steps = k \<and> (\<forall>s \<in> set steps. step_ok n s)
      \<and> mset out = mset ?a' \<and> partitioned cell out"
      using Suc.prems by (intro Suc.IH inv') simp_all
    then obtain steps out where rec:
      "shuffle_loop cell gen n (i + 1) head (tail - 1) ?a' = (steps, Inr out)"
      "length steps = k" "\<forall>s \<in> set steps. step_ok n s" "mset out = mset ?a'"
      "partitioned cell out" by blast
    have "shuffle_loop cell gen n i head tail a = (?step # steps, Inr out)"
      using shuffle_loop_back [where tablets' = ?a' and gen = gen and i = i and r = r and head = head and tail = tail, OF lt r(1) bj False swap_ok [OF bt bj]] rec(1)
      by simp
    then show ?thesis
      using rec sok mset_swapped [OF bt bj] by simp
  qed
qed

lemma shuffleTablets_correct:
  "\<exists>steps out. shuffleTablets cell gen a = (steps, Inr out)
      \<and> length steps = length a - 1
      \<and> (\<forall>s \<in> set steps. step_ok (int (length a)) s)
      \<and> mset out = mset a
      \<and> partitioned cell out"
proof -
  have inv: "shuffle_inv cell 0 (int (length a) - 1) a"
    by (cases a) (auto simp: shuffle_inv_def)
  have k: "length a - 1 = nat (int (length a) - 1 - 0)" by simp
  show ?thesis
    unfolding shuffleTablets_def Let_def
    by (rule shuffle_loop_correct [OF k refl _ inv]) simp
qed


text \<open>
  C9: \<^verbatim>\<open>shuffleTablets\<close> returns for every slice, every cell and every sequence of random
  numbers, without a panic. For a slice of length \<open>n\<close> it runs \<open>max (n - 1) 0\<close> loop
  bodies. On entry of each of them \<open>0 \<le> head < tail \<le> n - 1\<close> (so \<open>head \<le> tail\<close> also
  holds after the body, which moves one of the two by one), the index \<open>j\<close> lies between
  \<open>head\<close> and \<open>tail\<close>, and the argument of \<^verbatim>\<open>rand.IntN\<close> is \<open>tail - head + 1\<close>, at
  least 1. An empty or one-element slice is returned as it is, with no loop body run.
\<close>

theorem shuffleTablets_total_in_bounds:
  "\<exists>steps out. shuffleTablets cell gen tablets = (steps, Inr out)
      \<and> int (length steps) = max (int (length tablets) - 1) 0
      \<and> (\<forall>s \<in> set steps.
            0 \<le> s_head s \<and> s_head s < s_tail s \<and> s_tail s \<le> int (length tablets) - 1
            \<and> s_head s \<le> s_j s \<and> s_j s \<le> s_tail s
            \<and> s_arg s = s_tail s - s_head s + 1 \<and> 1 \<le> s_arg s)
      \<and> (length tablets \<le> 1 \<longrightarrow> steps = [] \<and> out = tablets)"
proof -
  obtain steps out where r: "shuffleTablets cell gen tablets = (steps, Inr out)"
    and len: "length steps = length tablets - 1"
    and ok: "\<forall>s \<in> set steps. step_ok (int (length tablets)) s"
    using shuffleTablets_correct [of cell gen tablets] by blast
  have small: "steps = [] \<and> out = tablets" if "length tablets \<le> 1"
  proof -
    have "shuffleTablets cell gen tablets = ([], Inr tablets)"
      using that by (simp add: shuffleTablets_def shuffle_loop_done)
    with r show ?thesis by simp
  qed
  have n: "int (length steps) = max (int (length tablets) - 1) 0"
    using len by (cases tablets) simp_all
  have ok': "\<forall>s \<in> set steps.
            0 \<le> s_head s \<and> s_head s < s_tail s \<and> s_tail s \<le> int (length tablets) - 1
            \<and> s_head s \<le> s_j s \<and> s_j s \<le> s_tail s
            \<and> s_arg s = s_tail s - s_head s + 1 \<and> 1 \<le> s_arg s"
    using ok unfolding step_ok_def by blast
  from r n ok' small show ?thesis by blast
qed

theorem shuffleTablets_total_in_bounds_witness:
  "shuffleTablets ''a'' (\<lambda>k. k + 1) [th_b, th_a, th_b, th_c] =
     ([\<lparr>s_head = 0, s_tail = 3, s_arg = 4, s_j = 1\<rparr>,
       \<lparr>s_head = 1, s_tail = 3, s_arg = 3, s_j = 3\<rparr>,
       \<lparr>s_head = 2, s_tail = 3, s_arg = 2, s_j = 3\<rparr>],
      Inr [th_a, th_c, th_b, th_b])
   \<and> shuffleTablets ''a'' (\<lambda>k. k + 1) [th_b] = ([], Inr [th_b])
   \<and> shuffleTablets ''a'' (\<lambda>k. k + 1) [] = ([], Inr [])"
proof -
  obtain steps out where r: "shuffleTablets ''a'' (\<lambda>k. k + 1) [th_b, th_a, th_b, th_c] = (steps, Inr out)"
    and len: "int (length steps) = max (int (length [th_b, th_a, th_b, th_c]) - 1) 0"
    using shuffleTablets_total_in_bounds [of "''a''" "\<lambda>k. k + 1" "[th_b, th_a, th_b, th_c]"]
    by blast
  have e4: "shuffleTablets ''a'' (\<lambda>k. k + 1) [th_b, th_a, th_b, th_c] =
     ([\<lparr>s_head = 0, s_tail = 3, s_arg = 4, s_j = 1\<rparr>,
       \<lparr>s_head = 1, s_tail = 3, s_arg = 3, s_j = 3\<rparr>,
       \<lparr>s_head = 2, s_tail = 3, s_arg = 2, s_j = 3\<rparr>],
      Inr [th_a, th_c, th_b, th_b])"
    by code_simp
  have e1: "shuffleTablets ''a'' (\<lambda>k. k + 1) [th_b] = ([], Inr [th_b])"
    using shuffleTablets_total_in_bounds [of "''a''" "\<lambda>k. k + 1" "[th_b]"] by auto
  have e0: "shuffleTablets ''a'' (\<lambda>k. k + 1) [] = ([], Inr [])"
    using shuffleTablets_total_in_bounds [of "''a''" "\<lambda>k. k + 1" "[]"] by auto
  from e4 e1 e0 show ?thesis by simp
qed

text \<open>
  C4: for every slice of tablets and every local cell, the slice after
  \<^verbatim>\<open>shuffleTablets\<close> is a permutation of the slice before (the multiset of the entries,
  hence of their aliases, is the same), and every tablet of the local cell stands at a
  strictly smaller index than every tablet of another cell.
\<close>

theorem shuffleTablets_permutation_local_first:
  "\<exists>steps out. shuffleTablets cell gen tablets = (steps, Inr out)
      \<and> mset out = mset tablets
      \<and> mset (map (\<lambda>t. Alias (Tablet t)) out) = mset (map (\<lambda>t. Alias (Tablet t)) tablets)
      \<and> (\<forall>p \<in> {..<length out}. \<forall>q \<in> {..<length out}.
            Cell (Alias (Tablet (out ! p))) = cell \<and> Cell (Alias (Tablet (out ! q))) \<noteq> cell
            \<longrightarrow> p < q)"
proof -
  obtain steps out where r: "shuffleTablets cell gen tablets = (steps, Inr out)"
    and ms: "mset out = mset tablets" and part: "partitioned cell out"
    using shuffleTablets_correct [of cell gen tablets] by blast
  have "mset (map (\<lambda>t. Alias (Tablet t)) out) = mset (map (\<lambda>t. Alias (Tablet t)) tablets)"
    using ms by (metis mset_map)
  with r ms part show ?thesis
    by (simp add: partitioned_def local_to_def)
qed

theorem shuffleTablets_permutation_local_first_witness:
  "snd (shuffleTablets ''a'' (\<lambda>k. 0) [th_b, th_a, th_b, th_c]) = Inr [th_c, th_a, th_b, th_b]
   \<and> mset [th_c, th_a, th_b, th_b] = mset [th_b, th_a, th_b, th_c]
   \<and> Cell (Alias (Tablet ([th_c, th_a, th_b, th_b] ! 1))) = ''a''
   \<and> Cell (Alias (Tablet ([th_c, th_a, th_b, th_b] ! 2))) \<noteq> ''a''"
proof -
  obtain steps out where r: "shuffleTablets ''a'' (\<lambda>k. 0) [th_b, th_a, th_b, th_c] = (steps, Inr out)"
    and ms: "mset out = mset [th_b, th_a, th_b, th_c]"
    using shuffleTablets_permutation_local_first [of "''a''" "\<lambda>k. 0" "[th_b, th_a, th_b, th_c]"]
    by blast
  have e: "snd (shuffleTablets ''a'' (\<lambda>k. 0) [th_b, th_a, th_b, th_c]) = Inr [th_c, th_a, th_b, th_b]"
    by code_simp
  with r have "out = [th_c, th_a, th_b, th_b]" by simp
  with ms e show ?thesis
    by (simp add: th_a_def th_b_def th_c_def mk_tablet_def)
qed


section \<open>Properties of updateDefaultConnCollation\<close>

lemma updateCalls_Cons:
  "updateCalls stored (t # ts) =
     (fst (updateCalls (fst (updateDefaultConnCollation stored t)) ts),
      snd (updateDefaultConnCollation stored t)
        # snd (updateCalls (fst (updateDefaultConnCollation stored t)) ts))"
  by (simp split: prod.splits)

lemma update_nonzero_keeps:
  "stored \<noteq> 0 \<Longrightarrow> fst (updateDefaultConnCollation stored t) = stored"
  by (simp add: updateDefaultConnCollation_def)

lemma update_warning_iff:
  "snd (updateDefaultConnCollation stored t) \<longleftrightarrow>
     stored \<noteq> 0 \<and> DefaultConnCollation t \<noteq> stored"
  by (auto simp: updateDefaultConnCollation_def)

lemma updateCalls_nonzero: "stored \<noteq> 0 \<Longrightarrow> fst (updateCalls stored ts) = stored"
  by (induction ts) (simp_all add: updateCalls_Cons update_nonzero_keeps del: updateCalls.simps(2))

lemma updateCalls_fst:
  "fst (updateCalls stored ts) =
     (if stored \<noteq> 0 then stored else first_nonzero (map DefaultConnCollation ts))"
proof (induction ts arbitrary: stored)
  case Nil
  then show ?case by simp
next
  case (Cons t ts)
  show ?case
    using Cons.IH [of "DefaultConnCollation t"] updateCalls_nonzero [of stored "t # ts"]
    by (simp add: updateCalls_Cons updateDefaultConnCollation_def del: updateCalls.simps(2))
qed

lemma updateCalls_snd_nth:
  "k < length ts \<Longrightarrow>
   snd (updateCalls stored ts) ! k =
     snd (updateDefaultConnCollation (fst (updateCalls stored (take k ts))) (ts ! k))"
proof (induction ts arbitrary: stored k)
  case Nil
  then show ?case by simp
next
  case (Cons t ts)
  show ?case
  proof (cases k)
    case 0
    then show ?thesis by (simp add: updateCalls_Cons del: updateCalls.simps(2))
  next
    case (Suc m)
    then have "m < length ts" using Cons.prems by simp
    from Cons.IH [OF this, of "fst (updateDefaultConnCollation stored t)"]
    show ?thesis using Suc by (simp add: updateCalls_Cons del: updateCalls.simps(2))
  qed
qed

text \<open>
  C3, as the code has it: after any finite sequence of calls that starts from the stored
  value 0, the stored value is the first non-zero collation of the sequence, and 0 if
  there is none; a stored value that is not 0 is never changed by a call or a sequence of
  calls; and the warning branch is taken on the \<open>k\<close>-th call exactly when the value stored
  before that call is not 0 and differs from the collation the call observes, whether the
  observed collation is 0 or not.
\<close>

theorem updateDefaultConnCollation_first_nonzero_wins:
  "fst (updateCalls 0 ts) = first_nonzero (map DefaultConnCollation ts)
   \<and> (stored \<noteq> 0 \<longrightarrow>
        fst (updateDefaultConnCollation stored t) = stored \<and> fst (updateCalls stored ts) = stored)
   \<and> (k < length ts \<longrightarrow>
        (snd (updateCalls 0 ts) ! k \<longleftrightarrow>
           first_nonzero (map DefaultConnCollation (take k ts)) \<noteq> 0
           \<and> DefaultConnCollation (ts ! k) \<noteq> first_nonzero (map DefaultConnCollation (take k ts))))"
proof -
  have a: "fst (updateCalls 0 ts) = first_nonzero (map DefaultConnCollation ts)"
    by (simp add: updateCalls_fst)
  have b: "fst (updateDefaultConnCollation stored t) = stored \<and> fst (updateCalls stored ts) = stored"
    if "stored \<noteq> 0"
    using that by (simp add: update_nonzero_keeps updateCalls_nonzero)
  have c: "snd (updateCalls 0 ts) ! k \<longleftrightarrow>
           first_nonzero (map DefaultConnCollation (take k ts)) \<noteq> 0
           \<and> DefaultConnCollation (ts ! k) \<noteq> first_nonzero (map DefaultConnCollation (take k ts))"
    if "k < length ts"
    using updateCalls_snd_nth [OF that, of 0]
    by (simp add: updateCalls_fst update_warning_iff)
  from a b c show ?thesis by blast
qed

theorem updateDefaultConnCollation_first_nonzero_wins_witness:
  "updateCalls 0 (map Tablet [th_c, th_a, th_b, th_c]) = (45, [False, False, False, True])
   \<and> first_nonzero (map DefaultConnCollation (map Tablet [th_c, th_a, th_b, th_c])) = 45"
proof -
  have "fst (updateCalls 0 (map Tablet [th_c, th_a, th_b, th_c])) =
          first_nonzero (map DefaultConnCollation (map Tablet [th_c, th_a, th_b, th_c]))"
    using updateDefaultConnCollation_first_nonzero_wins
            [of "map Tablet [th_c, th_a, th_b, th_c]" 1 "Tablet th_a" 0]
    by blast
  moreover have "updateCalls 0 (map Tablet [th_c, th_a, th_b, th_c]) = (45, [False, False, False, True])"
    by code_simp
  ultimately show ?thesis by simp
qed

text \<open>
  The claim C3 as it is written fails: with 45 stored, a call that observes the
  collation 0 takes the warning branch, although the observed collation is zero.
\<close>

theorem updateDefaultConnCollation_warns_on_zero:
  "DefaultConnCollation (Tablet th_c) = 0
   \<and> updateCalls 0 [Tablet th_a, Tablet th_c] = (45, [False, True])
   \<and> \<not> (snd (updateCalls 0 [Tablet th_a, Tablet th_c]) ! 1 \<longleftrightarrow>
          DefaultConnCollation (Tablet th_c) \<noteq> 0 \<and> DefaultConnCollation (Tablet th_c) \<noteq> 45)"
  by code_simp


section \<open>GetServingKeyspaces and WaitForTablets\<close>

text \<open>
  C10: a gateway without keyspace event watcher returns nil from
  \<^verbatim>\<open>GetServingKeyspaces\<close> and makes no call to a watcher; a gateway with a watcher returns
  what the watcher returns, with one call.
\<close>

theorem GetServingKeyspaces_without_watcher:
  "(kev gw = None \<longrightarrow> GetServingKeyspaces gw = (None, 0))
   \<and> (\<forall>k. kev gw = Some k \<longrightarrow> GetServingKeyspaces gw = (ServingKeyspaces k, 1))"
  by (simp add: GetServingKeyspaces_def)

theorem GetServingKeyspaces_without_watcher_witness:
  "kev (sample_gw []) = None
   \<and> GetServingKeyspaces (sample_gw []) = (None, 0)
   \<and> GetServingKeyspaces (sample_gw []\<lparr>kev := Some (sample_kev False (None, False) None)\<rparr>)
       = (Some [''ks''], 1)"
proof -
  have n: "kev (sample_gw []) = None"
    by (simp add: sample_gw_def)
  have s: "kev (sample_gw []\<lparr>kev := Some (sample_kev False (None, False) None)\<rparr>)
             = Some (sample_kev False (None, False) None)"
    by simp
  show ?thesis
    using n GetServingKeyspaces_without_watcher [of "sample_gw []"]
      GetServingKeyspaces_without_watcher
        [of "sample_gw []\<lparr>kev := Some (sample_kev False (None, False) None)\<rparr>"]
    by (simp add: sample_kev_def)
qed

lemma WaitForTablets_deferred_cases:
  "WaitForTablets_deferred (Some e) = (if e = DeadlineExceeded then None else Some e)"
  "WaitForTablets_deferred None = None"
  by (simp_all add: WaitForTablets_deferred_def)

text \<open>
  C8: for a non-empty list of tablet types, whichever of the three waits ends
  \<^verbatim>\<open>WaitForTablets\<close> with an error (the lookup of the targets, the wait for the serving
  tablets, the wait for consistent keyspaces): if that error is
  \<^verbatim>\<open>context.DeadlineExceeded\<close> the function returns nil, and any other error is returned
  as it is. Hence \<^verbatim>\<open>WaitForTablets\<close> never returns \<^verbatim>\<open>context.DeadlineExceeded\<close>.
\<close>

theorem WaitForTablets_timeout_not_fatal:
  assumes "tabletTypesToWait \<noteq> []"
    and "FindAllTargetsAndKeyspaces env (localCell gw) tabletTypesToWait = (targets, keyspaces, e1)"
  shows "(\<forall>e. e1 = Some e \<longrightarrow>
            WaitForTablets env gw tabletTypesToWait = (if e = DeadlineExceeded then None else Some e))
       \<and> (\<forall>e. e1 = None \<and> WaitForAllServingTablets (hc gw) targets = Some e \<longrightarrow>
            WaitForTablets env gw tabletTypesToWait = (if e = DeadlineExceeded then None else Some e))
       \<and> (\<forall>e k. e1 = None \<and> WaitForAllServingTablets (hc gw) targets = None
                 \<and> PRIMARY \<in> set tabletTypesToWait \<and> kev gw = Some k
                 \<and> WaitForConsistentKeyspaces k keyspaces = Some e \<longrightarrow>
            WaitForTablets env gw tabletTypesToWait = (if e = DeadlineExceeded then None else Some e))
       \<and> WaitForTablets env gw tabletTypesToWait \<noteq> Some DeadlineExceeded"
proof -
  have a: "WaitForTablets env gw tabletTypesToWait = (if e = DeadlineExceeded then None else Some e)"
    if "e1 = Some e" for e
    using assms that
    by (simp add: WaitForTablets_def WaitForTablets_body_def WaitForTablets_deferred_cases)
  have b: "WaitForTablets env gw tabletTypesToWait = (if e = DeadlineExceeded then None else Some e)"
    if "e1 = None" "WaitForAllServingTablets (hc gw) targets = Some e" for e
    using assms that
    by (simp add: WaitForTablets_def WaitForTablets_body_def WaitForTablets_deferred_cases)
  have c: "WaitForTablets env gw tabletTypesToWait = (if e = DeadlineExceeded then None else Some e)"
    if "e1 = None" "WaitForAllServingTablets (hc gw) targets = None"
      "PRIMARY \<in> set tabletTypesToWait" "kev gw = Some k"
      "WaitForConsistentKeyspaces k keyspaces = Some e" for e k
    using assms that
    by (simp add: WaitForTablets_def WaitForTablets_body_def WaitForTablets_deferred_cases
        IsTypeInList_def)
  have d: "WaitForTablets env gw tabletTypesToWait \<noteq> Some DeadlineExceeded"
    by (simp add: WaitForTablets_def WaitForTablets_deferred_def split: option.splits)
  from a b c d show ?thesis by blast
qed

theorem WaitForTablets_timeout_not_fatal_witness:
  "[PRIMARY] \<noteq> []
   \<and> WaitForAllServingTablets
        (hc (sample_gw []\<lparr>hc := (sample_hc [])\<lparr>WaitForAllServingTablets := (\<lambda>ts. Some DeadlineExceeded)\<rparr>\<rparr>)) []
       = Some DeadlineExceeded
   \<and> WaitForTablets sample_env
        (sample_gw []\<lparr>hc := (sample_hc [])\<lparr>WaitForAllServingTablets := (\<lambda>ts. Some DeadlineExceeded)\<rparr>\<rparr>)
        [PRIMARY] = None
   \<and> WaitForTablets sample_env
        (sample_gw []\<lparr>hc := (sample_hc [])\<lparr>WaitForAllServingTablets := (\<lambda>ts. Some (Foreign 5))\<rparr>\<rparr>)
        [PRIMARY] = Some (Foreign 5)"
proof -
  let ?gw = "\<lambda>e. sample_gw []\<lparr>hc := (sample_hc [])\<lparr>WaitForAllServingTablets := (\<lambda>ts. Some e)\<rparr>\<rparr>"
  have ne: "[PRIMARY] \<noteq> []" by simp
  have f: "FindAllTargetsAndKeyspaces sample_env (localCell (?gw e)) [PRIMARY] = ([], [], None)" for e
    by (simp add: sample_env_def)
  have w: "WaitForAllServingTablets (hc (?gw e)) [] = Some e" for e
    by simp
  have "WaitForTablets sample_env (?gw e) [PRIMARY] = (if e = DeadlineExceeded then None else Some e)"
    for e
    using WaitForTablets_timeout_not_fatal [OF ne f [of e]] w [of e] by blast
  from this [of DeadlineExceeded] this [of "Foreign 5"] w [of DeadlineExceeded]
  show ?thesis by simp
qed

section \<open>The checks before the retry loop\<close>

text \<open>
  C5: a dispatch in a transaction whose target is not of type PRIMARY returns the INTERNAL
  error at once: the state is the initial one, so no event has happened (no call to the
  buffer, to the health check, to the balancer or to the inner function).
\<close>

theorem withRetry_transaction_on_replica:
  assumes "inTransaction" and "target = Some t" and "TabletType t \<noteq> PRIMARY"
  shows "withRetry env gw target inTransaction inner =
           (Returned (Some (Errorf INTERNAL
              ''tabletGateway's query service can only be used for non-transactional queries on replicas''
              [])), initial_state gw)
         \<and> trace (snd (withRetry env gw target inTransaction inner)) = []"
  using assms by (simp add: withRetry_def checkTransaction_def initial_state_def)

theorem withRetry_transaction_on_replica_witness:
  "TabletType (sample_target REPLICA) \<noteq> PRIMARY
   \<and> fst (withRetry sample_env (sample_gw [th_a]) (Some (sample_target REPLICA)) True failing_inner) =
       Returned (Some (Errorf INTERNAL
              ''tabletGateway's query service can only be used for non-transactional queries on replicas''
              []))
   \<and> trace (snd (withRetry sample_env (sample_gw [th_a]) (Some (sample_target REPLICA)) True
                   failing_inner)) = []"
proof -
  have ty: "TabletType (sample_target REPLICA) \<noteq> PRIMARY"
    by (simp add: sample_target_def)
  show ?thesis
    using ty withRetry_transaction_on_replica [OF TrueI refl ty, of sample_env "sample_gw [th_a]" failing_inner]
    by (simp add: initial_state_def)
qed

text \<open>
  C6, as the code has it: when the list of allowed tablet types is not empty and the type
  of the target is not in it, \<^verbatim>\<open>withRetry\<close> returns before the retry loop with no event
  (so \<^verbatim>\<open>GetHealthyTabletStats\<close> is not called). The error is \<^verbatim>\<open>FAILED_PRECONDITION\<close>, unless
  the dispatch is in a transaction and the target is not of type PRIMARY: that check comes
  first and the error is then INTERNAL.
\<close>

theorem withRetry_type_not_allowed:
  assumes "target = Some t" and "AllowedTabletTypes env \<noteq> []"
    and "TabletType t \<notin> set (AllowedTabletTypes env)"
  shows "fst (withRetry env gw target inTransaction inner) =
           (if inTransaction \<and> TabletType t \<noteq> PRIMARY then
              Returned (Some (Errorf INTERNAL
                ''tabletGateway's query service can only be used for non-transactional queries on replicas''
                []))
            else
              Returned (Some (Errorf FAILED_PRECONDITION
                ''requested tablet type %v is not part of the allowed tablet types for this vtgate: %+v''
                [ArgType (TabletType t), ArgTypes (AllowedTabletTypes env)])))
         \<and> snd (withRetry env gw target inTransaction inner) = initial_state gw
         \<and> trace (snd (withRetry env gw target inTransaction inner)) = []"
  using assms
  by (auto simp: withRetry_def checkTransaction_def checkAllowed_def initial_state_def)

theorem withRetry_type_not_allowed_witness:
  "AllowedTabletTypes (sample_env\<lparr>AllowedTabletTypes := [REPLICA]\<rparr>) \<noteq> []
   \<and> TabletType (sample_target RDONLY) \<notin> set (AllowedTabletTypes (sample_env\<lparr>AllowedTabletTypes := [REPLICA]\<rparr>))
   \<and> withRetry (sample_env\<lparr>AllowedTabletTypes := [REPLICA]\<rparr>) (sample_gw [th_a])
        (Some (sample_target RDONLY)) False failing_inner =
       (Returned (Some (Errorf FAILED_PRECONDITION
          ''requested tablet type %v is not part of the allowed tablet types for this vtgate: %+v''
          [ArgType RDONLY, ArgTypes [REPLICA]])), initial_state (sample_gw [th_a]))"
proof -
  let ?env = "sample_env\<lparr>AllowedTabletTypes := [REPLICA]\<rparr>"
  have a: "AllowedTabletTypes ?env \<noteq> []" by simp
  have b: "TabletType (sample_target RDONLY) \<notin> set (AllowedTabletTypes ?env)"
    by (simp add: sample_target_def)
  show ?thesis
    using a b withRetry_type_not_allowed [OF refl a b, of "sample_gw [th_a]" False failing_inner]
    by (simp add: sample_target_def prod_eq_iff)
qed

text \<open>
  The claim C6 as it is written fails: the list of allowed types is [RDONLY], the target
  is of type REPLICA, and the dispatch is in a transaction; the error returned is
  INTERNAL, not \<^verbatim>\<open>FAILED_PRECONDITION\<close>.
\<close>

theorem withRetry_type_not_allowed_in_transaction:
  "AllowedTabletTypes (sample_env\<lparr>AllowedTabletTypes := [RDONLY]\<rparr>) \<noteq> []
   \<and> TabletType (sample_target REPLICA) \<notin> set (AllowedTabletTypes (sample_env\<lparr>AllowedTabletTypes := [RDONLY]\<rparr>))
   \<and> fst (withRetry (sample_env\<lparr>AllowedTabletTypes := [RDONLY]\<rparr>) (sample_gw [th_a])
        (Some (sample_target REPLICA)) True failing_inner) =
       Returned (Some (Errorf INTERNAL
         ''tabletGateway's query service can only be used for non-transactional queries on replicas''
         []))
   \<and> \<not> (\<exists>msg args.
          fst (withRetry (sample_env\<lparr>AllowedTabletTypes := [RDONLY]\<rparr>) (sample_gw [th_a])
                 (Some (sample_target REPLICA)) True failing_inner) =
            Returned (Some (Errorf FAILED_PRECONDITION msg args)))"
  by (simp add: withRetry_def checkTransaction_def sample_target_def)


section \<open>Properties of the retry loop\<close>

lemma emit_simps [simp]:
  "trace (emit e st) = trace st @ [e]"
  "err (emit e st) = err st"
  "invalidTablets (emit e st) = invalidTablets st"
  "bufferedOnce (emit e st) = bufferedOnce st"
  "tabletLastUsed (emit e st) = tabletLastUsed st"
  "collation (emit e st) = collation st"
  by (simp_all add: emit_def)

lemma used_append [simp]: "used (xs @ ys) = used xs @ used ys"
  by (induction xs rule: used.induct) simp_all

lemma bodies_append [simp]: "bodies (xs @ ys) = bodies xs + bodies ys"
  by (induction xs rule: bodies.induct) simp_all

lemma attempt_errors_append [simp]:
  "attempt_errors (xs @ ys) = attempt_errors xs @ attempt_errors ys"
  by (induction xs rule: attempt_errors.induct) simp_all

text \<open>One unfolding of the loop.\<close>

lemma withRetry_loop_exit:
  "\<not> int i < loopBound gw \<Longrightarrow> withRetry_loop env gw target inTransaction inner i st = (None, st)"
  by (subst withRetry_loop.simps) simp

lemma withRetry_loop_step:
  "int i < loopBound gw \<Longrightarrow>
   withRetry_loop env gw target inTransaction inner i st =
     (case iteration env gw target inTransaction inner i st of
        (Continue, st') \<Rightarrow> withRetry_loop env gw target inTransaction inner (i + 1) st'
      | (Break, st') \<Rightarrow> (None, st')
      | (Panic p, st') \<Rightarrow> (Some p, st'))"
  by (subst withRetry_loop.simps) simp

text \<open>What each part of a loop body leaves unchanged.\<close>

lemma bufferCheck_frame:
  assumes "bufferCheck gw target inTransaction i st = (c, st')"
  shows "used (trace st') = used (trace st)" and "invalidTablets st' = invalidTablets st"
    and "bodies (trace st') = bodies (trace st)"
    and "attempt_errors (trace st') = attempt_errors (trace st)"
  using assms
  by (auto simp: bufferCheck_def Let_def split: option.splits if_splits prod.splits)

lemma noTablets_frame:
  assumes "noTablets env gw target i st = (c, st')"
  shows "used (trace st') = used (trace st)" and "invalidTablets st' = invalidTablets st"
    and "bodies (trace st') = bodies (trace st)"
    and "attempt_errors (trace st') = attempt_errors (trace st)"
  using assms
  by (auto simp: noTablets_def failFast_def Let_def split: option.splits if_splits prod.splits)

lemma selectTablet_frame:
  assumes "selectTablet env gw target i tablets st = (r, st')"
  shows "used (trace st') = used (trace st)" and "invalidTablets st' = invalidTablets st"
    and "bodies (trace st') = bodies (trace st)"
    and "attempt_errors (trace st') = attempt_errors (trace st)"
    and "err st' = err st"
  using assms
  by (auto simp: selectTablet_def Let_def split: option.splits if_splits prod.splits sum.splits bool.splits)


lemma shuffleTablets_set:
  "\<exists>out. snd (shuffleTablets cell gen tablets) = Inr out \<and> set out = set tablets"
proof -
  obtain steps out where "shuffleTablets cell gen tablets = (steps, Inr out)"
    and "mset out = mset tablets"
    using shuffleTablets_correct [of cell gen tablets] by blast
  then show ?thesis by (auto dest: mset_eq_setD)
qed

lemma useBalancer_True: "useBalancer env target = Inr True \<Longrightarrow> balancerEnabled env"
  by (auto simp: useBalancer_def split: if_splits option.splits)

lemma useBalancer_target: "\<exists>b. useBalancer env (Some t) = Inr b"
  by (simp add: useBalancer_def)

text \<open>The tablet chosen is a candidate that was not tried before.\<close>

lemma selectTablet_fresh:
  assumes pick: "pick_from_candidates gw"
    and sel: "selectTablet env gw target i tablets st = (Inr (Some h), st')"
  shows "aliasKey env (Tablet h) \<notin> invalidTablets st" and "h \<in> set tablets"
proof -
  consider (panic) p where "useBalancer env target = Inl p"
    | (bal) "useBalancer env target = Inr True"
    | (shuf) "useBalancer env target = Inr False"
    by (cases "useBalancer env target") auto
  then have "aliasKey env (Tablet h) \<notin> invalidTablets st \<and> h \<in> set tablets"
  proof cases
    case panic
    with sel show ?thesis by (simp add: selectTablet_def)
  next
    case bal
    let ?ts = "if invalidTablets st \<noteq> {}
               then filter (\<lambda>t. aliasKey env (Tablet t) \<notin> invalidTablets st) tablets
               else tablets"
    from sel bal obtain b where b: "balancer gw = Some b" and p: "Pick b i target ?ts = Some h"
      by (auto simp: selectTablet_def Let_def split: option.splits)
    from pick b have "case Pick b i target ?ts of None \<Rightarrow> ?ts = [] | Some th \<Rightarrow> th \<in> set ?ts"
      unfolding pick_from_candidates_def by blast
    with p have hin: "h \<in> set ?ts" by simp
    show ?thesis
    proof (cases "invalidTablets st = {}")
      case True
      with hin show ?thesis by simp
    next
      case False
      with hin show ?thesis by simp
    qed
  next
    case shuf
    obtain out where o: "snd (shuffleTablets (localCell gw) (rnd env i) tablets) = Inr out"
      and s: "set out = set tablets"
      using shuffleTablets_set by blast
    from sel shuf o have "find (\<lambda>t. aliasKey env (Tablet t) \<notin> invalidTablets st) out = Some h"
      by (auto simp: selectTablet_def)
    then have "aliasKey env (Tablet h) \<notin> invalidTablets st \<and> h \<in> set out"
      by (auto simp: find_Some_iff)
    with s show ?thesis by simp
  qed
  then show "aliasKey env (Tablet h) \<notin> invalidTablets st" and "h \<in> set tablets"
    by simp_all
qed

text \<open>What the last part of a loop body does.\<close>

lemma execute_None:
  "execute env target inner i None st =
     (Break, if err st = None then st\<lparr>err := Some VT14002\<rparr> else st)"
  by (simp add: execute_def)

lemma execute_Some:
  assumes "execute env target inner i (Some h) st = (c, st')"
  shows "used (trace st') = used (trace st) @ [Tablet h]"
    and "bodies (trace st') = bodies (trace st)"
    and "attempt_errors (trace st') = attempt_errors (trace st) @ [err st']"
    and "c = Continue \<Longrightarrow> invalidTablets st' = insert (aliasKey env (Tablet h)) (invalidTablets st)"
  using assms
  by (auto simp: execute_def Let_def split: option.splits if_splits prod.splits)

lemma execute_Some_retry:
  assumes "execute env (Some t) inner i (Some h) st = (c, st')"
    and "\<forall>conn. fst (inner i (Some t) conn) \<and> snd (inner i (Some t) conn) \<noteq> None"
  shows "c = Continue" and "err st' \<noteq> None"
proof -
  have "c = Continue \<and> err st' \<noteq> None"
  proof (cases "Conn h")
    case None
    with assms(1) show ?thesis by (auto simp: execute_def Let_def)
  next
    case (Some conn)
    obtain r e where ie: "inner i (Some t) conn = (r, e)" by (cases "inner i (Some t) conn")
    with assms(2) have "r" "e \<noteq> None" by (metis fst_conv, metis snd_conv)
    with assms(1) Some ie show ?thesis
      by (auto simp: execute_def Let_def split: prod.splits)
  qed
  then show "c = Continue" and "err st' \<noteq> None" by simp_all
qed


lemma tried_inv_frame:
  "tried_inv env st \<Longrightarrow> used (trace st') = used (trace st) \<Longrightarrow>
   invalidTablets st' = invalidTablets st \<Longrightarrow> tried_inv env st'"
  by (simp add: tried_inv_def)

text \<open>
  A loop body keeps the keys of the used tablets pairwise different; when it ends with
  \<^verbatim>\<open>continue\<close> they are all in \<^verbatim>\<open>invalidTablets\<close>. It counts as one body.
\<close>

lemma iteration_tried:
  assumes pick: "pick_from_candidates gw"
    and it: "iteration env gw target inTransaction inner i st = (c, st')"
    and inv: "tried_inv env st"
  shows "distinct (map (aliasKey env) (used (trace st')))"
    and "c = Continue \<Longrightarrow> tried_inv env st'"
    and "bodies (trace st') = Suc (bodies (trace st))"
proof -
  obtain cb st1 where bc: "bufferCheck gw target inTransaction i (emit (LoopBody i) st) = (cb, st1)"
    by (cases "bufferCheck gw target inTransaction i (emit (LoopBody i) st)")
  note f1 = bufferCheck_frame [OF bc]
  have inv1: "tried_inv env st1"
    using inv f1 by (simp add: tried_inv_def)
  have b1: "bodies (trace st1) = Suc (bodies (trace st))"
    using f1 by simp
  let ?tablets = "GetHealthyTabletStats (hc gw) i target"
  let ?st2 = "emit (CallGetHealthyTabletStats ?tablets) st1"
  have inv2: "tried_inv env ?st2"
    using inv1 by (simp add: tried_inv_def)
  have b2: "bodies (trace ?st2) = Suc (bodies (trace st))"
    using b1 by simp
  have "distinct (map (aliasKey env) (used (trace st')))
        \<and> (c = Continue \<longrightarrow> tried_inv env st')
        \<and> bodies (trace st') = Suc (bodies (trace st))"
  proof (cases cb)
    case (Some c')
    with it bc have "st' = st1" by (simp add: iteration_def)
    with inv1 b1 show ?thesis by (simp add: tried_inv_def)
  next
    case None
    show ?thesis
    proof (cases "length ?tablets = 0")
      case True
      with it bc None have nt: "noTablets env gw target i ?st2 = (c, st')"
        by (simp add: iteration_def Let_def)
      note f = noTablets_frame [OF nt]
      from inv2 f b2 show ?thesis by (simp add: tried_inv_def)
    next
      case False
      obtain r st3 where sel: "selectTablet env gw target i ?tablets ?st2 = (r, st3)"
        by (cases "selectTablet env gw target i ?tablets ?st2")
      note f3 = selectTablet_frame [OF sel]
      have inv3: "tried_inv env st3"
        using inv2 f3 by (simp add: tried_inv_def)
      have b3: "bodies (trace st3) = Suc (bodies (trace st))"
        using b2 f3 by simp
      show ?thesis
      proof (cases r)
        case (Inl p)
        with it bc None False sel have "st' = st3" "c = Panic p"
          by (simp_all add: iteration_def Let_def)
        with inv3 b3 show ?thesis by (simp add: tried_inv_def)
      next
        case (Inr th)
        with it bc None False sel have ex: "execute env target inner i th st3 = (c, st')"
          by (simp add: iteration_def Let_def)
        show ?thesis
        proof (cases th)
          case None
          with ex have "used (trace st') = used (trace st3)"
            "invalidTablets st' = invalidTablets st3" "bodies (trace st') = bodies (trace st3)"
            by (auto simp: execute_None split: if_splits)
          with inv3 b3 show ?thesis by (simp add: tried_inv_def)
        next
          case (Some h)
          from sel Inr Some have "aliasKey env (Tablet h) \<notin> invalidTablets ?st2"
            using selectTablet_fresh(1) [OF pick] by blast
          then have new: "aliasKey env (Tablet h) \<notin> invalidTablets st3"
            using f3 by simp
          note e = execute_Some [OF ex [unfolded Some]]
          from inv3 new have d: "distinct (map (aliasKey env) (used (trace st3) @ [Tablet h]))"
            by (auto simp: tried_inv_def)
          from inv3 have "set (map (aliasKey env) (used (trace st3) @ [Tablet h]))
                            \<subseteq> insert (aliasKey env (Tablet h)) (invalidTablets st3)"
            by (auto simp: tried_inv_def)
          with d e b3 show ?thesis by (simp add: tried_inv_def)
        qed
      qed
    qed
  qed
  then show "distinct (map (aliasKey env) (used (trace st')))"
    and "c = Continue \<Longrightarrow> tried_inv env st'"
    and "bodies (trace st') = Suc (bodies (trace st))"
    by simp_all
qed

text \<open>The loop: no key is used twice, and at most \<open>loopBound gw - i\<close> bodies run from \<open>i\<close> on.\<close>

lemma withRetry_loop_tried:
  assumes pick: "pick_from_candidates gw"
  shows "tried_inv env st \<Longrightarrow>
         withRetry_loop env gw target inTransaction inner i st = (r, st') \<Longrightarrow>
         distinct (map (aliasKey env) (used (trace st')))
         \<and> int (bodies (trace st')) \<le> int (bodies (trace st)) + max 0 (loopBound gw - int i)"
proof (induction "nat (loopBound gw - int i)" arbitrary: i st)
  case 0
  then have "\<not> int i < loopBound gw" by simp
  with 0 show ?case by (simp add: withRetry_loop_exit tried_inv_def)
next
  case (Suc k)
  then have lt: "int i < loopBound gw" by linarith
  obtain c st1 where it: "iteration env gw target inTransaction inner i st = (c, st1)"
    by (cases "iteration env gw target inTransaction inner i st")
  note p = iteration_tried [OF pick it Suc.prems(1)]
  show ?case
  proof (cases c)
    case Continue
    with Suc.prems(2) lt it
    have loop: "withRetry_loop env gw target inTransaction inner (i + 1) st1 = (r, st')"
      by (simp add: withRetry_loop_step)
    have k: "k = nat (loopBound gw - int (i + 1))" using Suc.hyps(2) by linarith
    from Suc.hyps(1) [OF k p(2) [OF Continue] loop] p(3) lt show ?thesis by simp
  next
    case Break
    with Suc.prems(2) lt it have "st' = st1" by (simp add: withRetry_loop_step)
    with p lt show ?thesis by simp
  next
    case (Panic x)
    with Suc.prems(2) lt it have "st' = st1" by (simp add: withRetry_loop_step)
    with p lt show ?thesis by simp
  qed
qed

lemma runDeferred_frame [simp]:
  "used (trace (runDeferred st)) = used (trace st)"
  "bodies (trace (runDeferred st)) = bodies (trace st)"
  "attempt_errors (trace (runDeferred st)) = attempt_errors (trace st)"
  by (simp_all add: runDeferred_def)

lemma initial_state_simps [simp]:
  "trace (initial_state gw) = []" "err (initial_state gw) = None"
  "invalidTablets (initial_state gw) = {}"
  by (simp_all add: initial_state_def)

lemma withRetry_tried:
  assumes pick: "pick_from_candidates gw"
  shows "distinct (map (aliasKey env)
           (used (trace (snd (withRetry env gw target inTransaction inner)))))
         \<and> int (bodies (trace (snd (withRetry env gw target inTransaction inner))))
             \<le> max 0 (loopBound gw)"
proof -
  let ?st0 = "initial_state gw"
  have inv0: "tried_inv env ?st0" by (simp add: tried_inv_def)
  obtain r st where loop: "withRetry_loop env gw target inTransaction inner 0 ?st0 = (r, st)"
    by (cases "withRetry_loop env gw target inTransaction inner 0 ?st0")
  from withRetry_loop_tried [OF pick inv0 loop]
  have l: "distinct (map (aliasKey env) (used (trace st)))"
    "int (bodies (trace st)) \<le> max 0 (loopBound gw)" by simp_all
  show ?thesis
  proof (cases "checkTransaction target inTransaction")
    case (Some x)
    then show ?thesis by (simp add: withRetry_def)
  next
    case None
    show ?thesis
    proof (cases "checkAllowed env target")
      case (Some x)
      with None show ?thesis by (simp add: withRetry_def)
    next
      case ca: None
      with None loop l show ?thesis
        by (cases r) (simp_all add: withRetry_def)
    qed
  qed
qed


text \<open>
  The last error. With a buffer that reports no error the buffer check lets the body go
  on and leaves \<^verbatim>\<open>err\<close> as it is.
\<close>

lemma bufferCheck_passes:
  assumes buf: "\<forall>b i keyspace shard e. buffer gw = Some b \<and> \<not> inTransaction \<and> TabletType t = PRIMARY \<longrightarrow>
                  snd (WaitForFailoverEnd b i keyspace shard e) = None"
  shows "\<exists>st1. bufferCheck gw (Some t) inTransaction i st = (None, st1) \<and> err st1 = err st
           \<and> invalidTablets st1 = invalidTablets st
           \<and> attempt_errors (trace st1) = attempt_errors (trace st)"
proof (cases "buffer gw")
  case None
  then show ?thesis by (simp add: bufferCheck_def)
next
  case (Some b)
  show ?thesis
  proof (cases "\<not> inTransaction \<and> TabletType t = PRIMARY")
    case True
    obtain rd be where w: "WaitForFailoverEnd b i (Keyspace t) (Shard t) (err st) = (rd, be)"
      by (cases "WaitForFailoverEnd b i (Keyspace t) (Shard t) (err st)")
    from buf Some True have "snd (WaitForFailoverEnd b i (Keyspace t) (Shard t) (err st)) = None"
      by blast
    with w have "be = None" by simp
    with Some w show ?thesis
      by (simp add: bufferCheck_def Let_def)
  next
    case False
    with Some show ?thesis
      by (auto simp: bufferCheck_def)
  qed
qed

lemma selectTablet_no_panic:
  assumes bal: "balancerEnabled env \<longrightarrow> balancer gw \<noteq> None"
  shows "\<exists>th st'. selectTablet env gw (Some t) i tablets st = (Inr th, st')"
proof -
  obtain b where ub: "useBalancer env (Some t) = Inr b"
    using useBalancer_target by blast
  show ?thesis
  proof (cases b)
    case True
    from ub True have "balancerEnabled env"
      using useBalancer_True [of env "Some t"] by simp
    with bal obtain bl where "balancer gw = Some bl" by auto
    with ub True show ?thesis by (simp add: selectTablet_def Let_def)
  next
    case False
    obtain out where "snd (shuffleTablets (localCell gw) (rnd env i) tablets) = Inr out"
      using shuffleTablets_set by blast
    with ub False show ?thesis by (simp add: selectTablet_def)
  qed
qed

lemma selectTablet_first:
  assumes pick: "pick_from_candidates gw"
    and bal: "balancerEnabled env \<longrightarrow> balancer gw \<noteq> None"
    and none: "invalidTablets st = {}" and ne: "tablets \<noteq> []"
  shows "\<exists>h st'. selectTablet env gw (Some t) i tablets st = (Inr (Some h), st')"
proof -
  obtain b where ub: "useBalancer env (Some t) = Inr b"
    using useBalancer_target by blast
  show ?thesis
  proof (cases b)
    case True
    from ub True have "balancerEnabled env"
      using useBalancer_True [of env "Some t"] by simp
    with bal obtain bl where bl: "balancer gw = Some bl" by auto
    from pick bl have "case Pick bl i (Some t) tablets of None \<Rightarrow> tablets = [] | Some th \<Rightarrow> th \<in> set tablets"
      unfolding pick_from_candidates_def by blast
    with ne obtain h where "Pick bl i (Some t) tablets = Some h"
      by (cases "Pick bl i (Some t) tablets") auto
    with ub True bl none show ?thesis by (simp add: selectTablet_def Let_def)
  next
    case False
    obtain out where o: "snd (shuffleTablets (localCell gw) (rnd env i) tablets) = Inr out"
      and s: "set out = set tablets"
      using shuffleTablets_set by blast
    from s ne obtain x xs where "out = x # xs" by (cases out) auto
    with ub False o none show ?thesis by (simp add: selectTablet_def)
  qed
qed

text \<open>
  One loop body when the candidates are the same non-empty list, every call of the inner
  function asks for a retry with an error, and the buffer reports no error: the first
  body makes an attempt, and after every later body \<^verbatim>\<open>err\<close> is the error of the last
  attempt.
\<close>

lemma iteration_last_error:
  assumes pick: "pick_from_candidates gw"
    and bal: "balancerEnabled env \<longrightarrow> balancer gw \<noteq> None"
    and cand: "GetHealthyTabletStats (hc gw) i (Some t) = candidates" "candidates \<noteq> []"
    and inn: "\<forall>conn. fst (inner i (Some t) conn) \<and> snd (inner i (Some t) conn) \<noteq> None"
    and buf: "\<forall>b i keyspace shard e. buffer gw = Some b \<and> \<not> inTransaction \<and> TabletType t = PRIMARY \<longrightarrow>
                snd (WaitForFailoverEnd b i keyspace shard e) = None"
    and it: "iteration env gw (Some t) inTransaction inner i st = (c, st')"
  shows "fresh st \<Longrightarrow> c = Continue \<and> last_error_inv st'"
    and "last_error_inv st \<Longrightarrow> (c = Continue \<or> c = Break) \<and> last_error_inv st'"
proof -
  obtain st1 where bc: "bufferCheck gw (Some t) inTransaction i (emit (LoopBody i) st) = (None, st1)"
    and e1: "err st1 = err st" and i1: "invalidTablets st1 = invalidTablets st"
    and a1: "attempt_errors (trace st1) = attempt_errors (trace st)"
    using bufferCheck_passes [OF buf, of i "emit (LoopBody i) st"] by auto
  let ?st2 = "emit (CallGetHealthyTabletStats candidates) st1"
  obtain th st3 where sel: "selectTablet env gw (Some t) i candidates ?st2 = (Inr th, st3)"
    using selectTablet_no_panic [OF bal] by blast
  note f3 = selectTablet_frame [OF sel]
  have ex: "execute env (Some t) inner i th st3 = (c, st')"
    using it bc cand sel by (simp add: iteration_def Let_def)
  have e3: "err st3 = err st" and i3: "invalidTablets st3 = invalidTablets st"
    and a3: "attempt_errors (trace st3) = attempt_errors (trace st)"
    using f3 e1 i1 a1 by simp_all
  have attempt: "c = Continue \<and> last_error_inv st'" if "th = Some h" for h
  proof -
    note e = execute_Some [OF ex [unfolded that]]
    note r = execute_Some_retry [OF ex [unfolded that] inn]
    from e(3) r show ?thesis by (simp add: last_error_inv_def)
  qed
  show "c = Continue \<and> last_error_inv st'" if "fresh st"
  proof -
    from that have "invalidTablets ?st2 = {}" using i1 by (simp add: fresh_def)
    then obtain h st3' where "selectTablet env gw (Some t) i candidates ?st2 = (Inr (Some h), st3')"
      using selectTablet_first [OF pick bal _ cand(2)] by blast
    with sel have "th = Some h" by simp
    then show ?thesis by (rule attempt)
  qed
  show "(c = Continue \<or> c = Break) \<and> last_error_inv st'" if "last_error_inv st"
  proof (cases th)
    case None
    from that have "err st3 \<noteq> None" using e3 by (simp add: last_error_inv_def)
    with ex None have "c = Break" "st' = st3" by (simp_all add: execute_None)
    with that e3 a3 show ?thesis by (auto simp: last_error_inv_def)
  next
    case (Some h)
    then show ?thesis using attempt by blast
  qed
qed

lemma withRetry_loop_last_error:
  assumes pick: "pick_from_candidates gw"
    and bal: "balancerEnabled env \<longrightarrow> balancer gw \<noteq> None"
    and cand: "\<forall>i. GetHealthyTabletStats (hc gw) i (Some t) = candidates" "candidates \<noteq> []"
    and inn: "\<forall>i conn. fst (inner i (Some t) conn) \<and> snd (inner i (Some t) conn) \<noteq> None"
    and buf: "\<forall>b i keyspace shard e. buffer gw = Some b \<and> \<not> inTransaction \<and> TabletType t = PRIMARY \<longrightarrow>
                snd (WaitForFailoverEnd b i keyspace shard e) = None"
  shows "last_error_inv st \<Longrightarrow>
         \<exists>st'. withRetry_loop env gw (Some t) inTransaction inner i st = (None, st')
               \<and> last_error_inv st'"
proof (induction "nat (loopBound gw - int i)" arbitrary: i st)
  case 0
  then have "\<not> int i < loopBound gw" by simp
  with 0 show ?case by (simp add: withRetry_loop_exit)
next
  case (Suc k)
  then have lt: "int i < loopBound gw" by linarith
  obtain c st1 where it: "iteration env gw (Some t) inTransaction inner i st = (c, st1)"
    by (cases "iteration env gw (Some t) inTransaction inner i st")
  have inn': "\<forall>conn. fst (inner i (Some t) conn) \<and> snd (inner i (Some t) conn) \<noteq> None"
    using inn by blast
  from iteration_last_error(2) [OF pick bal cand(1) [rule_format] cand(2) inn' buf it Suc.prems]
  have c: "c = Continue \<or> c = Break" and inv1: "last_error_inv st1" by simp_all
  from c show ?case
  proof
    assume "c = Continue"
    with lt it have "withRetry_loop env gw (Some t) inTransaction inner i st =
                     withRetry_loop env gw (Some t) inTransaction inner (i + 1) st1"
      by (simp add: withRetry_loop_step)
    moreover have "k = nat (loopBound gw - int (i + 1))" using Suc.hyps(2) by linarith
    ultimately show ?thesis using Suc.hyps(1) [OF _ inv1] by simp
  next
    assume "c = Break"
    with lt it inv1 show ?thesis by (simp add: withRetry_loop_step)
  qed
qed

lemma withRetry_last_error:
  assumes pick: "pick_from_candidates gw"
    and bal: "balancerEnabled env \<longrightarrow> balancer gw \<noteq> None"
    and cand: "\<forall>i. GetHealthyTabletStats (hc gw) i (Some t) = candidates" "candidates \<noteq> []"
    and bound: "int (length candidates) \<le> loopBound gw"
    and inn: "\<forall>i conn. fst (inner i (Some t) conn) \<and> snd (inner i (Some t) conn) \<noteq> None"
    and buf: "\<forall>b i keyspace shard e. buffer gw = Some b \<and> \<not> inTransaction \<and> TabletType t = PRIMARY \<longrightarrow>
                snd (WaitForFailoverEnd b i keyspace shard e) = None"
    and pre: "checkTransaction (Some t) inTransaction = None" "checkAllowed env (Some t) = None"
  shows "attempt_errors (trace (snd (withRetry env gw (Some t) inTransaction inner))) \<noteq> []
         \<and> fst (withRetry env gw (Some t) inTransaction inner) =
             Returned (NewShardError env
               (last (attempt_errors (trace (snd (withRetry env gw (Some t) inTransaction inner)))))
               (Some t))
         \<and> last (attempt_errors (trace (snd (withRetry env gw (Some t) inTransaction inner)))) \<noteq> None"
proof -
  let ?st0 = "initial_state gw"
  have lt: "int 0 < loopBound gw"
    using bound cand(2) by (cases candidates) simp_all
  have fr: "fresh ?st0" by (simp add: fresh_def)
  obtain c st1 where it: "iteration env gw (Some t) inTransaction inner 0 ?st0 = (c, st1)"
    by (cases "iteration env gw (Some t) inTransaction inner 0 ?st0")
  have inn': "\<forall>conn. fst (inner 0 (Some t) conn) \<and> snd (inner 0 (Some t) conn) \<noteq> None"
    using inn by blast
  from iteration_last_error(1) [OF pick bal cand(1) [rule_format] cand(2) inn' buf it fr]
  have c: "c = Continue" and inv1: "last_error_inv st1" by simp_all
  obtain st' where l1: "withRetry_loop env gw (Some t) inTransaction inner (0 + 1) st1 = (None, st')"
    and inv': "last_error_inv st'"
    using withRetry_loop_last_error
            [where inner = inner and i = "0 + 1" and inTransaction = inTransaction,
             OF pick bal cand inn buf inv1]
    by blast
  have "withRetry_loop env gw (Some t) inTransaction inner 0 ?st0 = (None, st')"
    using withRetry_loop_step [OF lt, of env "Some t" inTransaction inner ?st0] it c l1 by simp
  with pre have "withRetry env gw (Some t) inTransaction inner =
                   (Returned (NewShardError env (err st') (Some t)), runDeferred st')"
    by (simp add: withRetry_def)
  with inv' show ?thesis by (simp add: last_error_inv_def)
qed


section \<open>The claims about the retry loop\<close>

lemma checkTransaction_passes:
  "\<not> (inTransaction \<and> TabletType t \<noteq> PRIMARY) \<Longrightarrow> checkTransaction (Some t) inTransaction = None"
  by (auto simp: checkTransaction_def)

lemma checkAllowed_passes:
  "AllowedTabletTypes env = [] \<or> TabletType t \<in> set (AllowedTabletTypes env) \<Longrightarrow>
   checkAllowed env (Some t) = None"
  by (auto simp: checkAllowed_def)

text \<open>
  C1, as the code has it. \<open>used\<close> lists the tablets a dispatch has tried, \<open>bodies\<close> counts
  the loop bodies it has run, \<open>attempt_errors\<close> lists the errors of its attempts, and
  \<open>loopBound gw\<close> is \<^verbatim>\<open>gw.retryCount+1\<close> as Go computes it.

  For every dispatch whose balancer, when one is used, picks among the candidates it is
  given: no alias key is tried twice, and the loop runs at most \<open>loopBound gw\<close> bodies
  (none when the bound is not positive).

  If moreover the target is not nil and passes the two checks before the loop, a balancer
  exists when the balancer is enabled, the health check answers every call with the same
  non-empty list of at most \<open>loopBound gw\<close> candidates, every call of the inner function
  returns \<^verbatim>\<open>canRetry = true\<close> with an error, and the buffer, when it is consulted, reports
  no error, then there is an attempt, and the error returned is the error of the last
  attempt with the target wrapped around it.
\<close>

theorem withRetry_each_tablet_once_last_error:
  assumes "pick_from_candidates gw"
  shows "distinct (map (aliasKey env)
           (used (trace (snd (withRetry env gw target inTransaction inner)))))
       \<and> int (bodies (trace (snd (withRetry env gw target inTransaction inner))))
           \<le> max 0 (loopBound gw)
       \<and> (\<forall>t candidates.
             target = Some t
             \<and> \<not> (inTransaction \<and> TabletType t \<noteq> PRIMARY)
             \<and> (AllowedTabletTypes env = [] \<or> TabletType t \<in> set (AllowedTabletTypes env))
             \<and> (balancerEnabled env \<longrightarrow> balancer gw \<noteq> None)
             \<and> (\<forall>i. GetHealthyTabletStats (hc gw) i target = candidates)
             \<and> candidates \<noteq> [] \<and> int (length candidates) \<le> loopBound gw
             \<and> (\<forall>i conn. fst (inner i target conn) \<and> snd (inner i target conn) \<noteq> None)
             \<and> (\<forall>b i keyspace shard e.
                   buffer gw = Some b \<and> \<not> inTransaction \<and> TabletType t = PRIMARY \<longrightarrow>
                   snd (WaitForFailoverEnd b i keyspace shard e) = None)
           \<longrightarrow>
             attempt_errors (trace (snd (withRetry env gw target inTransaction inner))) \<noteq> []
             \<and> last (attempt_errors (trace (snd (withRetry env gw target inTransaction inner))))
                 \<noteq> None
             \<and> fst (withRetry env gw target inTransaction inner) =
                 Returned (NewShardError env
                   (last (attempt_errors
                      (trace (snd (withRetry env gw target inTransaction inner)))))
                   target)
             \<and> int (bodies (trace (snd (withRetry env gw target inTransaction inner))))
                 \<le> loopBound gw)"
proof -
  note once = withRetry_tried [OF assms, of env target inTransaction inner]
  have last: "attempt_errors (trace (snd (withRetry env gw target inTransaction inner))) \<noteq> []
             \<and> last (attempt_errors (trace (snd (withRetry env gw target inTransaction inner))))
                 \<noteq> None
             \<and> fst (withRetry env gw target inTransaction inner) =
                 Returned (NewShardError env
                   (last (attempt_errors
                      (trace (snd (withRetry env gw target inTransaction inner)))))
                   target)
             \<and> int (bodies (trace (snd (withRetry env gw target inTransaction inner))))
                 \<le> loopBound gw"
    if tg: "target = Some t"
      and tx: "\<not> (inTransaction \<and> TabletType t \<noteq> PRIMARY)"
      and al: "AllowedTabletTypes env = [] \<or> TabletType t \<in> set (AllowedTabletTypes env)"
      and bal: "balancerEnabled env \<longrightarrow> balancer gw \<noteq> None"
      and cand: "\<forall>i. GetHealthyTabletStats (hc gw) i target = candidates"
      and ne: "candidates \<noteq> []" and bound: "int (length candidates) \<le> loopBound gw"
      and inn: "\<forall>i conn. fst (inner i target conn) \<and> snd (inner i target conn) \<noteq> None"
      and buf: "\<forall>b i keyspace shard e.
                   buffer gw = Some b \<and> \<not> inTransaction \<and> TabletType t = PRIMARY \<longrightarrow>
                   snd (WaitForFailoverEnd b i keyspace shard e) = None"
    for t candidates
  proof -
    have pos: "0 < loopBound gw" using ne bound by (cases candidates) simp_all
    from withRetry_last_error
           [where inner = inner and inTransaction = inTransaction,
            OF assms bal cand [unfolded tg] ne bound inn [unfolded tg] buf
               checkTransaction_passes [OF tx] checkAllowed_passes [OF al]]
      once pos
    show ?thesis unfolding tg by simp
  qed
  from once last show ?thesis by blast
qed

theorem withRetry_each_tablet_once_last_error_witness:
  "pick_from_candidates
     (sample_gw [th_b, th_a, th_c]\<lparr>balancer := Some first_balancer, buffer := Some quiet_buffer\<rparr>)
   \<and> distinct (map (aliasKey (sample_env\<lparr>balancerEnabled := True\<rparr>))
       (used (trace (snd (withRetry (sample_env\<lparr>balancerEnabled := True\<rparr>)
         (sample_gw [th_b, th_a, th_c]\<lparr>balancer := Some first_balancer, buffer := Some quiet_buffer\<rparr>)
         (Some (sample_target PRIMARY)) False failing_inner)))))
   \<and> map (aliasKey (sample_env\<lparr>balancerEnabled := True\<rparr>))
       (used (trace (snd (withRetry (sample_env\<lparr>balancerEnabled := True\<rparr>)
         (sample_gw [th_b, th_a, th_c]\<lparr>balancer := Some first_balancer, buffer := Some quiet_buffer\<rparr>)
         (Some (sample_target PRIMARY)) False failing_inner))))
       = [''b-ii'', ''a-i'', ''a-iii'']
   \<and> attempt_errors (trace (snd (withRetry (sample_env\<lparr>balancerEnabled := True\<rparr>)
         (sample_gw [th_b, th_a, th_c]\<lparr>balancer := Some first_balancer, buffer := Some quiet_buffer\<rparr>)
         (Some (sample_target PRIMARY)) False failing_inner)))
       = [Some (Foreign 8), Some (Foreign 7), Some (VT14003 (Tablet th_c))]
   \<and> bodies (trace (snd (withRetry (sample_env\<lparr>balancerEnabled := True\<rparr>)
         (sample_gw [th_b, th_a, th_c]\<lparr>balancer := Some first_balancer, buffer := Some quiet_buffer\<rparr>)
         (Some (sample_target PRIMARY)) False failing_inner))) = 3
   \<and> fst (withRetry (sample_env\<lparr>balancerEnabled := True\<rparr>)
         (sample_gw [th_b, th_a, th_c]\<lparr>balancer := Some first_balancer, buffer := Some quiet_buffer\<rparr>)
         (Some (sample_target PRIMARY)) False failing_inner)
       = Returned (Some (Wrapf (VT14003 (Tablet th_c)) ''target: %s.%s.%s''
           [ArgString ''ks'', ArgString ''0'', ArgString ''primary'']))"
proof -
  let ?env = "sample_env\<lparr>balancerEnabled := True\<rparr>"
  let ?gw = "sample_gw [th_b, th_a, th_c]\<lparr>balancer := Some first_balancer, buffer := Some quiet_buffer\<rparr>"
  let ?t = "sample_target PRIMARY"
  let ?W = "withRetry ?env ?gw (Some ?t) False failing_inner"
  have pick: "pick_from_candidates ?gw"
    by (auto simp: pick_from_candidates_def first_balancer_def split: list.splits)
  have hyps: "Some ?t = Some ?t
             \<and> \<not> (False \<and> TabletType ?t \<noteq> PRIMARY)
             \<and> (AllowedTabletTypes ?env = [] \<or> TabletType ?t \<in> set (AllowedTabletTypes ?env))
             \<and> (balancerEnabled ?env \<longrightarrow> balancer ?gw \<noteq> None)
             \<and> (\<forall>i. GetHealthyTabletStats (hc ?gw) i (Some ?t) = [th_b, th_a, th_c])
             \<and> [th_b, th_a, th_c] \<noteq> [] \<and> int (length [th_b, th_a, th_c]) \<le> loopBound ?gw
             \<and> (\<forall>i conn. fst (failing_inner i (Some ?t) conn)
                   \<and> snd (failing_inner i (Some ?t) conn) \<noteq> None)
             \<and> (\<forall>b i keyspace shard e.
                   buffer ?gw = Some b \<and> \<not> False \<and> TabletType ?t = PRIMARY \<longrightarrow>
                   snd (WaitForFailoverEnd b i keyspace shard e) = None)"
    by (simp add: sample_env_def sample_gw_def sample_hc_def sample_target_def failing_inner_def
        quiet_buffer_def loopBound_def)
  from withRetry_each_tablet_once_last_error [OF pick, of ?env "Some ?t" False failing_inner] hyps
  have d: "distinct (map (aliasKey ?env) (used (trace (snd ?W))))"
    and r: "fst ?W = Returned (NewShardError ?env (last (attempt_errors (trace (snd ?W)))) (Some ?t))"
    by blast+
  have u: "map (aliasKey ?env) (used (trace (snd ?W))) = [''b-ii'', ''a-i'', ''a-iii'']"
    by code_simp
  have a: "attempt_errors (trace (snd ?W))
             = [Some (Foreign 8), Some (Foreign 7), Some (VT14003 (Tablet th_c))]"
    by code_simp
  have b: "bodies (trace (snd ?W)) = 3"
    by code_simp
  have n: "NewShardError ?env (Some (VT14003 (Tablet th_c))) (Some ?t)
             = Some (Wrapf (VT14003 (Tablet th_c)) ''target: %s.%s.%s''
                 [ArgString ''ks'', ArgString ''0'', ArgString ''primary''])"
    by (simp add: NewShardError_def sample_env_def sample_target_def)
  from pick d u a b r n show ?thesis by simp
qed

text \<open>
  The claim C1 as it is written fails. The candidates are three tablets and
  \<^verbatim>\<open>retryCount\<close> is 2; the only attempt made returns \<^verbatim>\<open>canRetry = true\<close> with the error
  \<open>Foreign 7\<close>; in the second loop body the buffer reports the error \<open>Foreign 99\<close>, the loop
  ends, and the error returned is the buffer's error (wrapped twice), not the error of the
  last attempt.
\<close>

theorem withRetry_buffer_error_replaces_last_error:
  "int (length [th_b, th_a, th_c]) \<le> loopBound (sample_gw [th_b, th_a, th_c]\<lparr>buffer := Some sample_buffer\<rparr>)
   \<and> trace (snd (withRetry sample_env (sample_gw [th_b, th_a, th_c]\<lparr>buffer := Some sample_buffer\<rparr>)
        (Some (sample_target PRIMARY)) False failing_inner))
       = [LoopBody 0, CallWaitForFailoverEnd ''ks'' ''0'' None False None,
          CallGetHealthyTabletStats [th_b, th_a, th_c],
          UseTablet (Tablet th_a), CallInner 7 True (Some (Foreign 7)), CallUpdateStats True,
          LoopBody 1,
          CallWaitForFailoverEnd ''ks'' ''0'' (Some (Foreign 7)) False (Some (Foreign 99))]
   \<and> fst (withRetry sample_env (sample_gw [th_b, th_a, th_c]\<lparr>buffer := Some sample_buffer\<rparr>)
        (Some (sample_target PRIMARY)) False failing_inner)
       = Returned (Some (Wrapf
           (Wrapf (Foreign 99)
              ''failed to automatically buffer and retry failed request during failover. original err (type=%T): %v''
              [ArgErrType (Some (Foreign 7)), ArgErr (Some (Foreign 7))])
           ''target: %s.%s.%s''
           [ArgString ''ks'', ArgString ''0'', ArgString ''primary'']))
   \<and> fst (withRetry sample_env (sample_gw [th_b, th_a, th_c]\<lparr>buffer := Some sample_buffer\<rparr>)
        (Some (sample_target PRIMARY)) False failing_inner)
       \<noteq> Returned (NewShardError sample_env (Some (Foreign 7)) (Some (sample_target PRIMARY)))"
  by code_simp

text \<open>
  Why the attempts must carry an error: one candidate, \<^verbatim>\<open>retryCount\<close> 2, and an inner
  function that returns \<^verbatim>\<open>canRetry = true\<close> with a nil error. The second loop body finds
  no tablet left and no error to keep, and the dispatch returns \<^verbatim>\<open>VT14002\<close>.
\<close>

lemma withRetry_retry_without_error:
  "attempt_errors (trace (snd (withRetry sample_env (sample_gw [th_b])
       (Some (sample_target REPLICA)) False (\<lambda>i target conn. (True, None))))) = [None]
   \<and> fst (withRetry sample_env (sample_gw [th_b])
       (Some (sample_target REPLICA)) False (\<lambda>i target conn. (True, None)))
     = Returned (Some (Wrapf VT14002 ''target: %s.%s.%s''
         [ArgString ''ks'', ArgString ''0'', ArgString ''replica'']))"
  by code_simp


text \<open>
  C2: a loop body in which the buffer check lets the body go on, the health check returns
  no tablet, the target is of type PRIMARY and the gateway has a keyspace event watcher.
  \<^verbatim>\<open>TargetIsBeingResharded\<close> is called first. If it answers yes, \<^verbatim>\<open>err\<close> is the
  \<^verbatim>\<open>CLUSTER_EVENT\<close> error with the resharding reason, \<^verbatim>\<open>ShouldStartBufferingForTarget\<close> is not
  called, and the body ends with \<^verbatim>\<open>continue\<close>. Otherwise \<^verbatim>\<open>ShouldStartBufferingForTarget\<close>
  is called: with \<^verbatim>\<open>shouldBuffer\<close> the error is \<^verbatim>\<open>CLUSTER_EVENT\<close> with the reparent reason and
  the body ends with \<^verbatim>\<open>continue\<close>; else with a primary in sight it is the UNAVAILABLE error
  of the inconsistent state, again with \<^verbatim>\<open>continue\<close>; else it is the UNAVAILABLE error of
  no healthy tablet and the body ends with \<^verbatim>\<open>break\<close>. After \<^verbatim>\<open>continue\<close> the loop goes to
  the next iteration, after \<^verbatim>\<open>break\<close> it ends.
\<close>

theorem withRetry_no_tablet_for_primary:
  assumes "target = Some t" and "TabletType t = PRIMARY" and "kev gw = Some k"
    and "GetHealthyTabletStats (hc gw) i target = []"
    and "bufferCheck gw target inTransaction i (emit (LoopBody i) st) = (None, st1)"
  shows
    "(TargetIsBeingResharded k i target \<longrightarrow>
        iteration env gw target inTransaction inner i st =
          (Continue,
           (emit (CallTargetIsBeingResharded True) (emit (CallGetHealthyTabletStats []) st1))
             \<lparr>err := Some (Errorf CLUSTER_EVENT (ClusterEventReshardingInProgress env) [])\<rparr>))
     \<and> (\<forall>primary shouldBuffer.
          \<not> TargetIsBeingResharded k i target
          \<and> ShouldStartBufferingForTarget k i target = (primary, shouldBuffer) \<longrightarrow>
          iteration env gw target inTransaction inner i st =
            (if shouldBuffer then Continue else if primary \<noteq> None then Continue else Break,
             (emit (CallShouldStartBufferingForTarget primary shouldBuffer)
                (emit (CallTargetIsBeingResharded False) (emit (CallGetHealthyTabletStats []) st1)))
               \<lparr>err := Some
                  (if shouldBuffer then
                     Errorf CLUSTER_EVENT (ClusterEventReparentInProgress env) []
                   else if primary \<noteq> None then
                     Errorf UNAVAILABLE
                       ''inconsistent state detected, primary is serving but initially found no available tablet''
                       []
                   else
                     Errorf UNAVAILABLE (''no healthy tablet available for '%s'' @ [CHR 0x27])
                       [ArgTarget target])\<rparr>))
     \<and> (int i < loopBound gw \<longrightarrow>
          withRetry_loop env gw target inTransaction inner i st =
            (case iteration env gw target inTransaction inner i st of
               (Continue, st') \<Rightarrow> withRetry_loop env gw target inTransaction inner (i + 1) st'
             | (Break, st') \<Rightarrow> (None, st')
             | (Panic p, st') \<Rightarrow> (Some p, st')))"
proof -
  let ?st2 = "emit (CallGetHealthyTabletStats []) st1"
  have it: "iteration env gw target inTransaction inner i st = noTablets env gw target i ?st2"
    using assms(4,5) by (simp add: iteration_def Let_def)
  have a: "noTablets env gw target i ?st2 =
          (Continue,
           (emit (CallTargetIsBeingResharded True) ?st2)
             \<lparr>err := Some (Errorf CLUSTER_EVENT (ClusterEventReshardingInProgress env) [])\<rparr>)"
    if "TargetIsBeingResharded k i target"
    using that assms(1,2,3) by (simp add: noTablets_def Let_def)
  have b: "noTablets env gw target i ?st2 =
            (if shouldBuffer then Continue else if primary \<noteq> None then Continue else Break,
             (emit (CallShouldStartBufferingForTarget primary shouldBuffer)
                (emit (CallTargetIsBeingResharded False) ?st2))
               \<lparr>err := Some
                  (if shouldBuffer then
                     Errorf CLUSTER_EVENT (ClusterEventReparentInProgress env) []
                   else if primary \<noteq> None then
                     Errorf UNAVAILABLE
                       ''inconsistent state detected, primary is serving but initially found no available tablet''
                       []
                   else
                     Errorf UNAVAILABLE (''no healthy tablet available for '%s'' @ [CHR 0x27])
                       [ArgTarget target])\<rparr>)"
    if "\<not> TargetIsBeingResharded k i target"
      "ShouldStartBufferingForTarget k i target = (primary, shouldBuffer)"
    for primary shouldBuffer
    using that assms(1,2,3) by (simp add: noTablets_def failFast_def Let_def)
  have c: "withRetry_loop env gw target inTransaction inner i st =
            (case iteration env gw target inTransaction inner i st of
               (Continue, st') \<Rightarrow> withRetry_loop env gw target inTransaction inner (i + 1) st'
             | (Break, st') \<Rightarrow> (None, st')
             | (Panic p, st') \<Rightarrow> (Some p, st'))"
    if "int i < loopBound gw"
    using that by (rule withRetry_loop_step)
  from a b c show ?thesis unfolding it by blast
qed

theorem withRetry_no_tablet_for_primary_witness:
  "TabletType (sample_target PRIMARY) = PRIMARY
   \<and> GetHealthyTabletStats (hc (sample_gw []\<lparr>kev := Some (sample_kev True (None, True) None)\<rparr>)) 0
        (Some (sample_target PRIMARY)) = []
   \<and> TargetIsBeingResharded (sample_kev True (None, True) None) 0 (Some (sample_target PRIMARY))
   \<and> iteration sample_env (sample_gw []\<lparr>kev := Some (sample_kev True (None, True) None)\<rparr>)
        (Some (sample_target PRIMARY)) False failing_inner 0 (initial_state (sample_gw []))
       = (Continue,
          \<lparr>err = Some (Errorf CLUSTER_EVENT ''resharding in progress'' []),
           invalidTablets = {}, bufferedOnce = False, tabletLastUsed = None, collation = 0,
           trace = [LoopBody 0, CallGetHealthyTabletStats [], CallTargetIsBeingResharded True]\<rparr>)"
proof -
  let ?k = "sample_kev True (None, True) None"
  let ?gw = "sample_gw []\<lparr>kev := Some ?k\<rparr>"
  let ?t = "sample_target PRIMARY"
  let ?st = "initial_state (sample_gw [])"
  have ty: "TabletType ?t = PRIMARY" by (simp add: sample_target_def)
  have kv: "kev ?gw = Some ?k" by simp
  have hc: "GetHealthyTabletStats (hc ?gw) 0 (Some ?t) = []"
    by (simp add: sample_gw_def sample_hc_def)
  have bc: "bufferCheck ?gw (Some ?t) False 0 (emit (LoopBody 0) ?st) = (None, emit (LoopBody 0) ?st)"
    by (simp add: bufferCheck_def sample_gw_def)
  have rs: "TargetIsBeingResharded ?k 0 (Some ?t)" by (simp add: sample_kev_def)
  from withRetry_no_tablet_for_primary [OF refl ty kv hc bc, of sample_env failing_inner] rs
  have "iteration sample_env ?gw (Some ?t) False failing_inner 0 ?st =
          (Continue,
           (emit (CallTargetIsBeingResharded True)
              (emit (CallGetHealthyTabletStats []) (emit (LoopBody 0) ?st)))
             \<lparr>err := Some (Errorf CLUSTER_EVENT (ClusterEventReshardingInProgress sample_env) [])\<rparr>)"
    by blast
  with ty hc rs show ?thesis
    by (simp add: emit_def initial_state_def sample_env_def sample_gw_def)
qed

text \<open>
  C7, as the code has it: a dispatch that passes the two checks before the loop, whose loop
  ends (without panic) in the state \<open>st\<close>, returns \<^verbatim>\<open>NewShardError(err, target)\<close> for the
  final \<^verbatim>\<open>err\<close> of the loop. With an error and a target this is that error with one more
  wrap of the text \<^verbatim>\<open>target: %s.%s.%s\<close> around it (keyspace, shard and the name of the tablet
  type); with no error it is nil; with an error and a nil target it is the error itself. The
  errors of the two checks before the loop are returned without the wrap.
\<close>

theorem withRetry_wraps_final_error:
  assumes "checkTransaction target inTransaction = None" and "checkAllowed env target = None"
    and "withRetry_loop env gw target inTransaction inner 0 (initial_state gw) = (None, st)"
  shows "fst (withRetry env gw target inTransaction inner)
           = Returned (NewShardError env (err st) target)
       \<and> (\<forall>e t. err st = Some e \<and> target = Some t \<longrightarrow>
             NewShardError env (err st) target =
               Some (Wrapf e ''target: %s.%s.%s''
                 [ArgString (Keyspace t), ArgString (Shard t),
                  ArgString (TabletTypeLString env (TabletType t))])
             \<and> target_wraps (Wrapf e ''target: %s.%s.%s''
                 [ArgString (Keyspace t), ArgString (Shard t),
                  ArgString (TabletTypeLString env (TabletType t))]) = Suc (target_wraps e))
       \<and> (err st = None \<longrightarrow> NewShardError env (err st) target = None)
       \<and> (\<forall>e. err st = Some e \<and> target = None \<longrightarrow> NewShardError env (err st) target = Some e)"
  using assms by (simp add: withRetry_def NewShardError_def)

theorem withRetry_wraps_final_error_witness:
  "checkTransaction (Some (sample_target REPLICA)) False = None
   \<and> checkAllowed sample_env (Some (sample_target REPLICA)) = None
   \<and> fst (withRetry_loop sample_env (sample_gw [th_b, th_a, th_c]) (Some (sample_target REPLICA))
            False failing_inner 0 (initial_state (sample_gw [th_b, th_a, th_c]))) = None
   \<and> err (snd (withRetry_loop sample_env (sample_gw [th_b, th_a, th_c]) (Some (sample_target REPLICA))
            False failing_inner 0 (initial_state (sample_gw [th_b, th_a, th_c])))) = Some (Foreign 8)
   \<and> fst (withRetry sample_env (sample_gw [th_b, th_a, th_c]) (Some (sample_target REPLICA))
            False failing_inner)
       = Returned (Some (Wrapf (Foreign 8) ''target: %s.%s.%s''
           [ArgString ''ks'', ArgString ''0'', ArgString ''replica'']))
   \<and> target_wraps (Wrapf (Foreign 8) ''target: %s.%s.%s''
           [ArgString ''ks'', ArgString ''0'', ArgString ''replica'']) = 1"
proof -
  let ?gw = "sample_gw [th_b, th_a, th_c]"
  let ?t = "sample_target REPLICA"
  let ?L = "withRetry_loop sample_env ?gw (Some ?t) False failing_inner 0 (initial_state ?gw)"
  have ct: "checkTransaction (Some ?t) False = None" by (simp add: checkTransaction_def)
  have ca: "checkAllowed sample_env (Some ?t) = None"
    by (simp add: checkAllowed_def sample_env_def)
  have lf: "fst ?L = None" by code_simp
  have le: "err (snd ?L) = Some (Foreign 8)" by code_simp
  have l: "?L = (None, snd ?L)" using lf by (simp add: prod_eq_iff)
  from withRetry_wraps_final_error [OF ct ca l] le
  have "fst (withRetry sample_env ?gw (Some ?t) False failing_inner)
          = Returned (Some (Wrapf (Foreign 8) ''target: %s.%s.%s''
              [ArgString (Keyspace ?t), ArgString (Shard ?t),
               ArgString (TabletTypeLString sample_env (TabletType ?t))]))"
    by simp
  with ct ca lf le show ?thesis
    by (simp add: sample_target_def sample_env_def)
qed

text \<open>
  The claim C7 as it is written fails: the list of allowed types is [REPLICA] and the target
  is of type RDONLY; the dispatch ends with an error and a target that is not nil, and the
  error returned is the \<^verbatim>\<open>FAILED_PRECONDITION\<close> error itself, with no wrap of the target text.
\<close>

theorem withRetry_check_error_not_wrapped:
  "fst (withRetry (sample_env\<lparr>AllowedTabletTypes := [REPLICA]\<rparr>) (sample_gw [th_a])
          (Some (sample_target RDONLY)) False failing_inner)
     = Returned (Some (Errorf FAILED_PRECONDITION
         ''requested tablet type %v is not part of the allowed tablet types for this vtgate: %+v''
         [ArgType RDONLY, ArgTypes [REPLICA]]))
   \<and> target_wraps (Errorf FAILED_PRECONDITION
         ''requested tablet type %v is not part of the allowed tablet types for this vtgate: %+v''
         [ArgType RDONLY, ArgTypes [REPLICA]]) = 0
   \<and> \<not> (\<exists>e args.
          fst (withRetry (sample_env\<lparr>AllowedTabletTypes := [REPLICA]\<rparr>) (sample_gw [th_a])
                 (Some (sample_target RDONLY)) False failing_inner)
            = Returned (Some (Wrapf e ''target: %s.%s.%s'' args)))"
  by (simp add: withRetry_def checkTransaction_def checkAllowed_def sample_target_def)


end
